theory Spec2Isabelle
  imports Complex_Main
begin

section \<open>Derived parameters (scripts/002-comfyui-script/comfyui_client.py)\<close>

subsection \<open>Python number helpers\<close>

text \<open>
  A finite Python float is read as the real number it denotes. \<open>int(x)\<close> truncates
  towards zero; \<open>x % 1\<close> has the sign of the divisor, that is \<open>x - floor x\<close>.
  Both are exact on finite floats, so no rounding is lost by reading them over the reals.
\<close>

definition py_int :: "real \<Rightarrow> int" where
  "py_int x = (if 0 \<le> x then \<lfloor>x\<rfloor> else \<lceil>x\<rceil>)"

definition py_mod1 :: "real \<Rightarrow> real" where
  "py_mod1 x = x - of_int \<lfloor>x\<rfloor>"

subsection \<open>get_audio_duration\<close>

text \<open>
  What \<open>audio.info.length\<close> gives: the attribute access raises (for instance \<open>info\<close>
  is missing), or the float is NaN or infinite (then \<open>int(raw_duration)\<close> raises), or it
  is a finite number of seconds.
\<close>

datatype length_read = LengthRaises | LengthNotFinite | LengthSeconds real

text \<open>What \<open>File(audio_path)\<close> gives: it raises, it returns \<open>None\<close>, or an audio object.\<close>

datatype audio_file = FileRaises | FileNone | FileAudio length_read

fun get_audio_duration :: "audio_file \<Rightarrow> int" where
  "get_audio_duration FileRaises = 5"
| "get_audio_duration FileNone = 5"
| "get_audio_duration (FileAudio LengthRaises) = 5"
| "get_audio_duration (FileAudio LengthNotFinite) = 5"
| "get_audio_duration (FileAudio (LengthSeconds raw_duration)) =
     (let rounded_duration = py_int raw_duration + (if py_mod1 raw_duration > 0 then 1 else 0);
          final_duration = rounded_duration + 1
      in final_duration)"

subsection \<open>get_optimal_dimensions\<close>

text \<open>
  What \<open>Image.open(image_path)\<close> followed by \<open>img.size\<close> gives: an exception, or the
  width and height. The quotient \<open>width / height\<close> and the three differences are
  Python floats; they are read here as exact real numbers, so the rounding of the
  division is not part of the model. A zero height raises \<open>ZeroDivisionError\<close>, which the
  handler turns into the square default.
\<close>

datatype image_open = ImageRaises | ImageSize int int

definition LANDSCAPE :: "int \<times> int" where "LANDSCAPE = (1024, 576)"
definition PORTRAIT :: "int \<times> int" where "PORTRAIT = (576, 1024)"
definition SQUARE :: "int \<times> int" where "SQUARE = (576, 576)"

fun get_optimal_dimensions :: "image_open \<Rightarrow> int \<times> int" where
  "get_optimal_dimensions ImageRaises = (576, 576)"
| "get_optimal_dimensions (ImageSize width height) =
     (if height = 0 then (576, 576)
      else
        let aspect_ratio = real_of_int width / real_of_int height;
            landscape_diff = \<bar>aspect_ratio - 16 / 9\<bar>;
            portrait_diff = \<bar>aspect_ratio - 9 / 16\<bar>;
            square_diff = \<bar>aspect_ratio - 1\<bar>
        in if landscape_diff \<le> min portrait_diff square_diff then LANDSCAPE
           else if portrait_diff \<le> min landscape_diff square_diff then PORTRAIT
           else SQUARE)"

section \<open>Job submission (scripts/006-text-to-video-Wan2.1-Script/comfyui_client.py)\<close>

subsection \<open>queue_workflow\<close>

text \<open>
  What one pass through the body of the retry loop meets. \<open>RequestException\<close>: the POST
  (or the decoding of a 200 body, in versions of the HTTP library whose decode error is a
  \<open>RequestException\<close>) raises \<open>requests.RequestException\<close>. \<open>OtherException\<close>: anything
  else is raised inside the attempt; it is not caught by the inner handler and reaches the
  outer one. \<open>Response code prompt_id\<close>: the server answered with \<open>code\<close>; for a 200,
  \<open>prompt_id\<close> is \<open>result.get("prompt_id")\<close>, \<open>None\<close> when the key is absent.
\<close>

datatype post_outcome = RequestException | OtherException | Response int "string option"

text \<open>
  The value returned, the number of POST attempts made and the arguments of the
  \<open>time.sleep\<close> calls, in order.
\<close>

record queue_result =
  returned :: "string option"
  attempts :: nat
  sleeps :: "nat list"

definition max_retries :: nat where
  "max_retries = 3"

text \<open>
  The body of \<open>for retry in range(max_retries)\<close>, from the attempt numbered \<open>retry\<close> on;
  \<open>env retry\<close> is what that attempt meets. The last equation's \<open>else\<close> is the
  \<open>return None\<close> after the loop.
\<close>

function retry_loop :: "(nat \<Rightarrow> post_outcome) \<Rightarrow> nat \<Rightarrow> nat \<Rightarrow> nat list \<Rightarrow> queue_result" where
  "retry_loop env retry retry_delay slept =
     (if retry < max_retries then
        (case env retry of
           Response code prompt_id \<Rightarrow>
             if code = 200 then \<lparr>returned = prompt_id, attempts = retry + 1, sleeps = slept\<rparr>
             else if retry < max_retries - 1
               then retry_loop env (retry + 1) (retry_delay * 2) (slept @ [retry_delay])
               else \<lparr>returned = None, attempts = retry + 1, sleeps = slept\<rparr>
         | RequestException \<Rightarrow>
             if retry < max_retries - 1
               then retry_loop env (retry + 1) (retry_delay * 2) (slept @ [retry_delay])
               else \<lparr>returned = None, attempts = retry + 1, sleeps = slept\<rparr>
         | OtherException \<Rightarrow> \<lparr>returned = None, attempts = retry + 1, sleeps = slept\<rparr>)
      else \<lparr>returned = None, attempts = retry, sleeps = slept\<rparr>)"
  by pat_completeness auto
termination
  by (relation "measure (\<lambda>(env, retry, retry_delay, slept). max_retries - retry)") auto

declare retry_loop.simps [simp del]

text \<open>
  \<open>prep_raises\<close>: the steps before the loop (compiling the graph, validating it, writing
  the debug copy of the payload) raise; the outer handler returns \<open>None\<close> before any
  sleep or attempt. Otherwise \<open>time.sleep(1)\<close> precedes the first attempt and
  \<open>retry_delay\<close> starts at 2.
\<close>

definition queue_workflow :: "bool \<Rightarrow> (nat \<Rightarrow> post_outcome) \<Rightarrow> queue_result" where
  "queue_workflow prep_raises env =
     (if prep_raises then \<lparr>returned = None, attempts = 0, sleeps = []\<rparr>
      else retry_loop env 0 2 [1])"

text \<open>A transient outcome: a network error or a response other than 200.\<close>

fun transient :: "post_outcome \<Rightarrow> bool" where
  "transient RequestException = True"
| "transient OtherException = False"
| "transient (Response code prompt_id) = (code \<noteq> 200)"

section \<open>Artifact download (scripts/006-text-to-video-Wan2.1-Script/comfyui_client.py)\<close>

subsection \<open>Library functions the download uses\<close>

text \<open>
  Strings are byte strings. \<open>str.lower\<close> is modelled on the ASCII letters; the suffixes
  it is compared with are ASCII.
\<close>

definition lower_char :: "char \<Rightarrow> char" where
  "lower_char c =
     (case map_of (zip ''ABCDEFGHIJKLMNOPQRSTUVWXYZ'' ''abcdefghijklmnopqrstuvwxyz'') c of
        Some l \<Rightarrow> l
      | None \<Rightarrow> c)"

definition lower :: "string \<Rightarrow> string" where
  "lower s = map lower_char s"


definition startswith :: "string \<Rightarrow> string \<Rightarrow> bool" where
  "startswith s pre = (take (length pre) s = pre)"








subsection \<open>get_video_url and download_file\<close>

















section \<open>Completion tracking (scripts/006-text-to-video-Wan2.1-Script/comfyui_client.py)\<close>

subsection \<open>Strings\<close>

text \<open>
  \<open>str.isdigit\<close> on byte strings: non-empty and ASCII digits only. \<open>int\<close> of such a
  string. \<open>sub in s\<close> for strings. \<open>str\<close> of an integer.
\<close>

definition isdigit :: "string \<Rightarrow> bool" where
  "isdigit s = (s \<noteq> [] \<and> (\<forall>c \<in> set s. c \<in> set ''0123456789''))"

definition digit_value :: "char \<Rightarrow> nat" where
  "digit_value c = of_char c - 48"

definition int_of_digits :: "string \<Rightarrow> nat" where
  "int_of_digits s = foldl (\<lambda>acc c. 10 * acc + digit_value c) 0 s"

fun contains :: "string \<Rightarrow> string \<Rightarrow> bool" where
  "contains [] sub = (sub = [])"
| "contains (c # cs) sub = (take (length sub) (c # cs) = sub \<or> contains cs sub)"

fun str_nat :: "nat \<Rightarrow> string" where
  "str_nat n =
     (if n < 10 then [''0123456789'' ! n]
      else str_nat (n div 10) @ [''0123456789'' ! (n mod 10)])"

declare str_nat.simps [simp del]

definition str_int :: "int \<Rightarrow> string" where
  "str_int i = (if i < 0 then ''-'' @ str_nat (nat (- i)) else str_nat (nat i))"

subsection \<open>check_workflow_status\<close>

text \<open>
  The JSON body of \<open>GET /history/{prompt_id}\<close>, as far as the tracker reads it. A field
  is \<open>None\<close> when the key is absent. \<open>outputs\<close> is given by its keys (node ids) in order,
  \<open>executing\<close> is a list of node ids. \<open>completed\<close> says whether
  \<open>status.get("completed") == True\<close>. The entries \<open>prompt\<close> and \<open>progress\<close> feed log
  lines only and are left out. The prompt id is taken to differ from the fixed keys.
\<close>

record status_field =
  completed :: bool
  status_str :: "string option"
  status_error :: "string option"

record prompt_entry =
  pe_status :: "status_field option"
  pe_outputs :: "string list option"
  pe_executing :: "string list option"

record history_data =
  hd_prompt_entry :: "prompt_entry option"
  hd_error :: "string option"
  hd_outputs :: "string list option"
  hd_executing :: "string list option"

text \<open>
  What the request meets: an exception (also a 200 body that is no JSON) with its text, or
  a response with its status code and body (the body is read for a 200 only).
\<close>

datatype history_reply = HistoryRaises string | HistoryResponse int history_data

definition has_node_30 :: "string list option \<Rightarrow> bool" where
  "has_node_30 outputs = (case outputs of None \<Rightarrow> False | Some keys \<Rightarrow> ''30'' \<in> set keys)"

text \<open>
  The block under \<open>if prompt_id in history_data\<close>: the three early returns, or \<open>None\<close>
  when none of them is taken.
\<close>

definition check_prompt_data ::
    "history_data \<Rightarrow> (bool \<times> history_data option \<times> string option) option" where
  "check_prompt_data history_data =
     (case hd_prompt_entry history_data of
        None \<Rightarrow> None
      | Some prompt_data \<Rightarrow>
          if (case pe_status prompt_data of None \<Rightarrow> False | Some st \<Rightarrow> completed st)
            then Some (True, Some history_data, None)
          else if (case pe_status prompt_data of None \<Rightarrow> False
                   | Some st \<Rightarrow> status_str st = Some ''error'')
            then Some (False, Some history_data,
                   Some (''Error: '' @
                     (case pe_status prompt_data of None \<Rightarrow> ''Unknown error''
                      | Some st \<Rightarrow>
                          (case status_error st of None \<Rightarrow> ''Unknown error'' | Some e \<Rightarrow> e))))
          else if has_node_30 (pe_outputs prompt_data)
            then Some (True, Some history_data, None)
          else None)"

definition check_workflow_status ::
    "history_reply \<Rightarrow> bool \<times> history_data option \<times> string option" where
  "check_workflow_status reply =
     (case reply of
        HistoryRaises e \<Rightarrow> (False, None, Some e)
      | HistoryResponse status_code history_data \<Rightarrow>
          if status_code = 200 then
            (case check_prompt_data history_data of
               Some r \<Rightarrow> r
             | None \<Rightarrow>
                 if hd_error history_data \<noteq> None
                   then (True, Some history_data, hd_error history_data)
                 else if has_node_30 (hd_outputs history_data)
                   then (True, Some history_data, None)
                 else
                   let executed_nodes =
                         filter (\<lambda>node_id. \<not> startswith node_id ''$'')
                           (case hd_prompt_entry history_data of
                              None \<Rightarrow>
                                (case hd_outputs history_data of None \<Rightarrow> [] | Some keys \<Rightarrow> keys)
                            | Some prompt_data \<Rightarrow>
                                (case pe_outputs prompt_data of
                                   Some keys \<Rightarrow> keys
                                 | None \<Rightarrow>
                                     (case hd_outputs history_data of
                                        None \<Rightarrow> [] | Some keys \<Rightarrow> keys)));
                       is_complete = (''30'' \<in> set executed_nodes)
                   in (is_complete, Some history_data, None))
          else (False, None, Some (''API error: '' @ str_int status_code)))"

subsection \<open>get_queue_status\<close>

text \<open>
  The JSON body of the queue query. An item of a queue array is a list, of which the
  elements that are strings are kept (\<open>None\<close> for the others), or not a list.
  \<open>qd_progress\<close> is the \<open>node\<close> entry of a \<open>progress\<close> object that is present and not
  null.
\<close>

datatype queue_item = ItemList "string option list" | ItemOther

datatype node_field = NodeAbsent | NodeNull | NodeId string

record queue_data =
  qd_running :: "queue_item list option"
  qd_pending :: "queue_item list option"
  qd_progress :: "node_field option"

text \<open>
  \<open>QueueGetRaises\<close>: \<open>self.session.get\<close> raises. The handler then runs
  \<open>return queue_info\<close> before \<open>queue_info\<close> was assigned, which raises
  \<open>UnboundLocalError\<close> out of \<open>get_queue_status\<close>. \<open>QueueJsonRaises\<close>: a 200 body that
  is no JSON; the handler returns the initial \<open>queue_info\<close>.
\<close>

datatype queue_reply = QueueGetRaises | QueueJsonRaises | QueueResponse int queue_data

record queue_info =
  queue_position :: "nat option"
  queue_size :: nat
  queue_running :: bool
  is_in_queue :: bool
  current_node :: node_field

definition initial_queue_info :: queue_info where
  "initial_queue_info =
     \<lparr>queue_position = None, queue_size = 0, queue_running = False, is_in_queue = False,
      current_node = NodeAbsent\<rparr>"

fun item_matches :: "string \<Rightarrow> queue_item \<Rightarrow> bool" where
  "item_matches prompt_id (ItemList xs) = (length xs > 1 \<and> xs ! 1 = Some prompt_id)"
| "item_matches prompt_id ItemOther = False"

fun first_index :: "('a \<Rightarrow> bool) \<Rightarrow> 'a list \<Rightarrow> nat option" where
  "first_index P [] = None"
| "first_index P (x # xs) =
     (if P x then Some 0 else (case first_index P xs of None \<Rightarrow> None | Some i \<Rightarrow> Some (i + 1)))"

text \<open>The result is \<open>None\<close> when \<open>get_queue_status\<close> raises.\<close>

definition get_queue_status :: "string \<Rightarrow> queue_reply \<Rightarrow> queue_info option" where
  "get_queue_status prompt_id reply =
     (case reply of
        QueueGetRaises \<Rightarrow> None
      | QueueJsonRaises \<Rightarrow> Some initial_queue_info
      | QueueResponse status_code queue_data \<Rightarrow>
          if status_code = 200 then
            let info1 =
                  (if (case qd_running queue_data of None \<Rightarrow> False
                       | Some items \<Rightarrow> list_ex (item_matches prompt_id) items)
                   then initial_queue_info
                          \<lparr>queue_position := Some 0, queue_running := True, is_in_queue := True\<rparr>
                   else initial_queue_info);
                info2 =
                  (case qd_pending queue_data of
                     None \<Rightarrow> info1
                   | Some queue_pending \<Rightarrow>
                       if is_in_queue info1 then info1
                       else
                         let sized = info1\<lparr>queue_size := queue_size info1 + length queue_pending\<rparr>
                         in (case first_index (item_matches prompt_id) queue_pending of
                               None \<Rightarrow> sized
                             | Some idx \<Rightarrow>
                                 sized\<lparr>queue_position := Some (idx + 1), is_in_queue := True\<rparr>));
                info3 =
                  (if queue_running info2 then
                     (case qd_progress queue_data of
                        None \<Rightarrow> info2
                      | Some node \<Rightarrow> info2\<lparr>current_node := node\<rparr>)
                   else info2)
            in Some info3
          else Some initial_queue_info)"

subsection \<open>wait_for_workflow_completion\<close>

definition node_descriptions :: "string \<Rightarrow> string option" where
  "node_descriptions = map_of
     [(''11'', ''Loading T5 encoder model''), (''16'', ''Encoding text prompt''),
      (''37'', ''Preparing latent space''), (''39'', ''Setting up block swap''),
      (''22'', ''Loading video model''), (''38'', ''Loading VAE model''),
      (''52'', ''Configuring tea cache''), (''55'', ''Setting up video enhancement''),
      (''27'', ''Generating frames with sampler''), (''28'', ''Decoding video frames''),
      (''30'', ''Combining frames into video'')]"

definition stage_percentages :: "string \<Rightarrow> int option" where
  "stage_percentages = map_of
     [(''11'', 5), (''16'', 10), (''37'', 15), (''39'', 20), (''22'', 25), (''38'', 30),
      (''52'', 35), (''55'', 40), (''27'', 50), (''28'', 85), (''30'', 95)]"

definition estimated_total_time :: real where "estimated_total_time = 600"
definition progress_interval :: real where "progress_interval = 5"
definition queue_check_interval :: real where "queue_check_interval = 5"
definition required_not_in_queue :: nat where "required_not_in_queue = 5"
definition generating_progress_base :: int where "generating_progress_base = 40"
definition generating_progress_max :: int where "generating_progress_max = 85"

text \<open>
  The messages passed to \<open>status_callback\<close>, one constructor per format string:
  \<open>"100% - Complete"\<close>, \<open>"{p}% - Completed: {desc}"\<close>,
  \<open>"0% - Queued: Position {position} of {size}"\<close>, \<open>"{p}% - Processing: {desc}"\<close>,
  \<open>"95% - Finalizing"\<close>, \<open>"Error: {msg}"\<close> and \<open>"{p}% - {desc}"\<close>.
\<close>

datatype status_msg =
  Complete100
  | CompletedNode int string
  | Queued nat nat
  | Processing int string
  | Finalizing95
  | ErrorStatus string
  | Progress int string

text \<open>The log line written just before a \<open>return\<close>.\<close>

datatype log_line = LogTimedOut int | LogCompleted | LogFoundNode30 | LogFailed string

text \<open>
  How the call ends: it returns a boolean, or the \<open>UnboundLocalError\<close> of
  \<open>get_queue_status\<close> passes through it.
\<close>

datatype exit = Returned bool log_line | Raised

record wait_params =
  prompt_id :: string
  timeout_minutes :: int
  status_callback :: bool
  start_time :: real

text \<open>
  The local variables of the loop. \<open>now\<close> is the wall clock: it advances by the argument of
  every \<open>time.sleep\<close> and by the time the two requests of an iteration take; everything
  else takes no time. \<open>callbacks\<close> are the messages passed to \<open>status_callback\<close> so far and
  \<open>queue_polls\<close> the outcomes of the calls of \<open>get_queue_status\<close> so far, most recent
  first: whether the job was found in a queue, and whether \<open>executing\<close> was non-empty in
  that iteration.
\<close>

record loop_state =
  now :: real
  check_interval :: real
  last_update_time :: real
  last_queue_check_time :: real
  known_executed_nodes :: "string list"
  prompt_left_queue :: bool
  showed_finalizing :: bool
  consecutive_not_in_queue :: nat
  last_node_executing :: "string option"
  reported_nodes :: "string set"
  callbacks :: "status_msg list"
  queue_polls :: "(bool \<times> bool) list"

text \<open>
  What one iteration observes: the answers to its two requests and the time each takes.
\<close>

record poll_obs =
  history :: history_reply
  history_delay :: real
  queue :: queue_reply
  queue_delay :: real

text \<open>
  Where control goes after a part of the loop body: on to the next statement, to the next
  iteration (after the sleep), or out of the function.
\<close>

datatype flow = Proceed loop_state | NextPoll loop_state | Stop exit loop_state

definition emit :: "wait_params \<Rightarrow> status_msg \<Rightarrow> loop_state \<Rightarrow> loop_state" where
  "emit p msg s = (if status_callback p then s\<lparr>callbacks := callbacks s @ [msg]\<rparr> else s)"

text \<open>The clock advances: by a \<open>time.sleep(seconds)\<close>, or while a request is answered.\<close>

definition elapse :: "real \<Rightarrow> loop_state \<Rightarrow> loop_state" where
  "elapse seconds s = s\<lparr>now := now s + seconds\<rparr>"

text \<open>
  The block repeated three times in the source: for node 27 the percentage is estimated
  from the time spent generating.
\<close>

definition frame_generation_pct :: "real \<Rightarrow> int \<Rightarrow> int" where
  "frame_generation_pct elapsed_time progress_pct =
     (let generation_time = elapsed_time - 60 in
      if generation_time > 0 then
        let progress_range = generating_progress_max - generating_progress_base
        in generating_progress_base
           + min progress_range (py_int ((generation_time / 240) * real_of_int progress_range))
      else progress_pct)"

definition time_based_pct :: "real \<Rightarrow> int" where
  "time_based_pct elapsed_time = min 90 (py_int ((elapsed_time / estimated_total_time) * 100))"

definition executed_of :: "string list \<Rightarrow> string list" where
  "executed_of outputs = filter isdigit outputs"

text \<open>
  \<open>max(new_completed, key=...)\<close>: the first element with the largest key, in the order of
  the output keys (the iteration order of a Python set is not specified).
\<close>

fun max_by_key :: "('a \<Rightarrow> nat) \<Rightarrow> 'a \<Rightarrow> 'a list \<Rightarrow> 'a" where
  "max_by_key key best [] = best"
| "max_by_key key best (x # xs) = max_by_key key (if key best < key x then x else best) xs"

text \<open>\<open>Build a progress summary based on completed nodes\<close>.\<close>

definition progress_summary :: "wait_params \<Rightarrow> string list \<Rightarrow> loop_state \<Rightarrow> loop_state" where
  "progress_summary p outputs s =
     (if outputs \<noteq> [] \<and> status_callback p \<and> now s - last_update_time s > progress_interval then
        let executed_nodes = executed_of outputs;
            completed_percentage =
              foldl (\<lambda>acc node_id.
                       case stage_percentages node_id of None \<Rightarrow> acc | Some pct \<Rightarrow> max acc pct)
                0 executed_nodes;
            new_completed = filter (\<lambda>node_id. node_id \<notin> reported_nodes s) executed_nodes
        in (case new_completed of
              [] \<Rightarrow> s
            | first # others \<Rightarrow>
                let latest_node =
                      max_by_key (\<lambda>x. if isdigit x then int_of_digits x else 0) first others;
                    latest_desc =
                      (case node_descriptions latest_node of
                         None \<Rightarrow> ''Step '' @ latest_node | Some d \<Rightarrow> d);
                    s1 = s\<lparr>reported_nodes := reported_nodes s \<union> set new_completed\<rparr>;
                    s2 = emit p (CompletedNode completed_percentage latest_desc) s1
                in s2\<lparr>last_update_time := now s2\<rparr>)
      else s)"

text \<open>The branch \<open>elif queue_running\<close> of the queue check, up to its \<open>continue\<close>.\<close>

definition queue_running_branch ::
    "wait_params \<Rightarrow> real \<Rightarrow> queue_info \<Rightarrow> loop_state \<Rightarrow> loop_state" where
  "queue_running_branch p elapsed_time info s =
     (let s1 =
            (case current_node info of
               NodeAbsent \<Rightarrow> s
             | NodeNull \<Rightarrow> s\<lparr>last_node_executing := None\<rparr>
             | NodeId n \<Rightarrow> s\<lparr>last_node_executing := Some n\<rparr>);
          progress_pct =
            (case current_node info of
               NodeId n \<Rightarrow>
                 (if n \<noteq> [] \<and> isdigit n then
                    (case stage_percentages n of
                       None \<Rightarrow> None
                     | Some pct \<Rightarrow>
                         Some (if n = ''27'' then frame_generation_pct elapsed_time pct else pct))
                  else stage_percentages n)
             | _ \<Rightarrow> None);
          progress_pct =
            (case progress_pct of None \<Rightarrow> time_based_pct elapsed_time | Some pct \<Rightarrow> pct);
          node_desc =
            (case current_node info of
               NodeId n \<Rightarrow> (case node_descriptions n of None \<Rightarrow> ''Processing'' | Some d \<Rightarrow> d)
             | _ \<Rightarrow> ''Processing'')
      in if status_callback p \<and> now s1 - last_update_time s1 > progress_interval
         then emit p (Processing progress_pct node_desc) (s1\<lparr>last_update_time := now s1\<rparr>)
         else s1)"

text \<open>The branch \<open>if is_in_queue\<close> of the queue check.\<close>

definition in_queue_branch ::
    "wait_params \<Rightarrow> real \<Rightarrow> queue_info \<Rightarrow> loop_state \<Rightarrow> flow" where
  "in_queue_branch p elapsed_time info s =
     (let s2 = s\<lparr>consecutive_not_in_queue := 0\<rparr> in
      case (case queue_position info of
              None \<Rightarrow> None
            | Some pos \<Rightarrow> if pos > 0 then Some pos else None) of
        Some pos \<Rightarrow>
          NextPoll (elapse (check_interval s2) (emit p (Queued pos (queue_size info)) s2))
      | None \<Rightarrow>
          if queue_running info then
            (let s3 = queue_running_branch p elapsed_time info s2
             in NextPoll (elapse (check_interval s3) s3))
          else Proceed s2)"

text \<open>The branch \<open>else\<close> of the queue check: the job is in neither queue.\<close>

definition not_in_queue_branch ::
    "wait_params \<Rightarrow> string list \<Rightarrow> string list \<Rightarrow> loop_state \<Rightarrow> loop_state" where
  "not_in_queue_branch p outputs executing s =
     (let s2 = s\<lparr>consecutive_not_in_queue := consecutive_not_in_queue s + 1\<rparr>;
          s3 = (if executing \<noteq> [] then s2\<lparr>consecutive_not_in_queue := 0\<rparr> else s2)
      in if consecutive_not_in_queue s3 \<ge> required_not_in_queue then
           (let has_outputs = (outputs \<noteq> []) in
            if has_outputs then
              let s4 = s3\<lparr>prompt_left_queue := True\<rparr> in
              if \<not> showed_finalizing s4 \<and> status_callback p
                then emit p Finalizing95 (s4\<lparr>showed_finalizing := True\<rparr>)
                else s4
            else s3)
         else s3)"

text \<open>
  \<open>Check queue status periodically\<close>. The clock is read for \<open>last_queue_check_time\<close>
  before the request and advances by the time the request takes.
\<close>

definition queue_check ::
    "wait_params \<Rightarrow> poll_obs \<Rightarrow> real \<Rightarrow> string list \<Rightarrow> string list \<Rightarrow> loop_state \<Rightarrow> flow" where
  "queue_check p obs elapsed_time outputs executing s =
     (if \<not> prompt_left_queue s \<and> now s - last_queue_check_time s > queue_check_interval then
        let s0 = s\<lparr>last_queue_check_time := now s\<rparr> in
        (case get_queue_status (prompt_id p) (queue obs) of
           None \<Rightarrow> Stop Raised s0
         | Some info \<Rightarrow>
             let s1 = elapse (queue_delay obs)
                        (s0\<lparr>queue_polls := (is_in_queue info, executing \<noteq> []) # queue_polls s0\<rparr>)
             in if is_in_queue info then in_queue_branch p elapsed_time info s1
                else Proceed (not_in_queue_branch p outputs executing s1))
      else Proceed s)"

text \<open>\<open>If there's an error, log it and return failure\<close>.\<close>

definition error_check :: "wait_params \<Rightarrow> string option \<Rightarrow> loop_state \<Rightarrow> flow" where
  "error_check p error_msg s =
     (case error_msg of
        None \<Rightarrow> Proceed s
      | Some msg \<Rightarrow>
          if msg \<noteq> [] \<and> contains msg ''Error:''
            then Stop (Returned False (LogFailed msg)) (emit p (ErrorStatus msg) s)
            else Proceed s)"

text \<open>\<open>If we have history data, track progress with executed nodes\<close>.\<close>

definition track_executed :: "wait_params \<Rightarrow> string list \<Rightarrow> loop_state \<Rightarrow> flow" where
  "track_executed p outputs s =
     (if outputs \<noteq> [] then
        let executed_nodes = executed_of outputs;
            s1 = s\<lparr>known_executed_nodes := executed_nodes\<rparr>
        in if ''30'' \<in> set executed_nodes
             then Stop (Returned True LogCompleted) (emit p Complete100 s1)
             else Proceed s1
      else Proceed s)"

text \<open>\<open>Check if there are executing nodes\<close>: the body of the loop over \<open>executing\<close>.\<close>

definition report_executing ::
    "wait_params \<Rightarrow> real \<Rightarrow> string \<Rightarrow> loop_state \<Rightarrow> loop_state" where
  "report_executing p elapsed_time node_id s =
     (if isdigit node_id then
        let s1 = s\<lparr>last_node_executing := Some node_id\<rparr> in
        (case node_descriptions node_id of
           None \<Rightarrow> s1
         | Some desc \<Rightarrow>
             if now s1 - last_update_time s1 > progress_interval then
               let progress_pct =
                     (case stage_percentages node_id of None \<Rightarrow> 50 | Some pct \<Rightarrow> pct);
                   progress_pct =
                     (if node_id = ''27'' then frame_generation_pct elapsed_time progress_pct
                      else progress_pct)
               in if status_callback p
                    then emit p (Processing progress_pct desc) (s1\<lparr>last_update_time := now s1\<rparr>)
                    else s1
             else s1)
      else s)"

text \<open>\<open>For time-based progress updates if nothing else is happening\<close>.\<close>

definition time_based_progress :: "wait_params \<Rightarrow> real \<Rightarrow> loop_state \<Rightarrow> loop_state" where
  "time_based_progress p elapsed_time s =
     (if now s - last_update_time s > progress_interval then
        let s1 = s\<lparr>last_update_time := now s\<rparr>;
            progress_pct =
              (case last_node_executing s1 of
                 None \<Rightarrow> None
               | Some n \<Rightarrow>
                   if n \<noteq> [] then
                     (case stage_percentages n of
                        None \<Rightarrow> None
                      | Some pct \<Rightarrow>
                          Some (if n = ''27'' then frame_generation_pct elapsed_time pct else pct))
                   else None);
            progress_pct =
              (case progress_pct of None \<Rightarrow> time_based_pct elapsed_time | Some pct \<Rightarrow> pct);
            desc =
              (case last_node_executing s1 of
                 None \<Rightarrow> ''Processing''
               | Some n \<Rightarrow>
                   if n \<noteq> [] then
                     (case node_descriptions n of None \<Rightarrow> ''Processing'' | Some d \<Rightarrow> d)
                   else ''Processing'')
        in emit p (Progress progress_pct desc) s1
      else s)"

text \<open>\<open>Adaptive waiting\<close>: the interval grows by 5 percent up to 8 seconds, then the sleep.\<close>

definition adaptive_wait :: "loop_state \<Rightarrow> loop_state" where
  "adaptive_wait s =
     (let s1 = s\<lparr>check_interval := min 8 (check_interval s * 1.05)\<rparr>
      in elapse (check_interval s1) s1)"

text \<open>The statements after the queue check, to the end of the loop body.\<close>

definition after_queue_check ::
    "wait_params \<Rightarrow> real \<Rightarrow> string list \<Rightarrow> string list \<Rightarrow> string option \<Rightarrow> loop_state \<Rightarrow> flow"
  where
  "after_queue_check p elapsed_time outputs executing error_msg s =
     (case error_check p error_msg s of
        Proceed s1 \<Rightarrow>
          (case track_executed p outputs s1 of
             Proceed s2 \<Rightarrow>
               NextPoll (adaptive_wait
                 (time_based_progress p elapsed_time
                   (foldl (\<lambda>st node_id. report_executing p elapsed_time node_id st) s2 executing)))
           | other \<Rightarrow> other)
      | other \<Rightarrow> other)"

text \<open>One pass through the body of \<open>while True\<close>.\<close>

definition loop_body :: "wait_params \<Rightarrow> poll_obs \<Rightarrow> loop_state \<Rightarrow> flow" where
  "loop_body p obs s =
     (let timeout_seconds = timeout_minutes p * 60;
          elapsed_time = now s - start_time p
      in if elapsed_time > real_of_int timeout_seconds
           then Stop (Returned False (LogTimedOut (timeout_minutes p))) s
         else
           (case check_workflow_status (history obs) of
              (is_complete, history_data, error_msg) \<Rightarrow>
                let s1 = elapse (history_delay obs) s in
                if is_complete then Stop (Returned True LogCompleted) (emit p Complete100 s1)
                else
                  let prompt_data =
                        (case history_data of None \<Rightarrow> None | Some h \<Rightarrow> hd_prompt_entry h);
                      top_outputs = (case history_data of None \<Rightarrow> None | Some h \<Rightarrow> hd_outputs h);
                      top_executing =
                        (case history_data of None \<Rightarrow> None | Some h \<Rightarrow> hd_executing h);
                      outputs =
                        (case (case prompt_data of None \<Rightarrow> None | Some d \<Rightarrow> pe_outputs d) of
                           Some keys \<Rightarrow> keys
                         | None \<Rightarrow> (case top_outputs of Some keys \<Rightarrow> keys | None \<Rightarrow> []));
                      executing =
                        (case (case prompt_data of None \<Rightarrow> None | Some d \<Rightarrow> pe_executing d) of
                           Some nodes \<Rightarrow> nodes
                         | None \<Rightarrow> (case top_executing of Some nodes \<Rightarrow> nodes | None \<Rightarrow> []))
                  in if ''30'' \<in> set outputs
                       then Stop (Returned True LogFoundNode30) (emit p Complete100 s1)
                     else
                       (case queue_check p obs elapsed_time outputs executing
                               (progress_summary p outputs s1) of
                          Proceed s2 \<Rightarrow>
                            after_queue_check p elapsed_time outputs executing error_msg s2
                        | other \<Rightarrow> other)))"

text \<open>
  The state at the first test of the loop: \<open>start_time\<close> was read, one second was slept.
\<close>

definition initial_state :: "wait_params \<Rightarrow> loop_state" where
  "initial_state p =
     \<lparr>now = start_time p + 1, check_interval = 5, last_update_time = 0,
      last_queue_check_time = 0, known_executed_nodes = [], prompt_left_queue = False,
      showed_finalizing = False, consecutive_not_in_queue = 0, last_node_executing = None,
      reported_nodes = {}, callbacks = [], queue_polls = []\<rparr>"

text \<open>
  \<open>n\<close> passes through the loop body, the \<open>k\<close>-th of them observing \<open>env k\<close>. The result is
  \<open>Stop\<close> when the function has ended within them and \<open>NextPoll\<close> with the state reached
  otherwise.
\<close>

fun polls :: "nat \<Rightarrow> wait_params \<Rightarrow> (nat \<Rightarrow> poll_obs) \<Rightarrow> nat \<Rightarrow> loop_state \<Rightarrow> flow" where
  "polls 0 p env k s = NextPoll s"
| "polls (Suc n) p env k s =
     (case loop_body p (env k) s of
        Stop e s' \<Rightarrow> Stop e s'
      | NextPoll s' \<Rightarrow> polls n p env (Suc k) s'
      | Proceed s' \<Rightarrow> polls n p env (Suc k) s')"

text \<open>
  The call with a bound on the number of iterations: \<open>None\<close> when the loop is still running
  after \<open>fuel\<close> iterations, otherwise how it ended and the final state.
\<close>

definition wait_for_workflow_completion ::
    "nat \<Rightarrow> wait_params \<Rightarrow> (nat \<Rightarrow> poll_obs) \<Rightarrow> (exit \<times> loop_state) option" where
  "wait_for_workflow_completion fuel p env =
     (case polls fuel p env 0 (initial_state p) of
        Stop e s \<Rightarrow> Some (e, s)
      | _ \<Rightarrow> None)"

text \<open>Vocabulary for the tracker properties.\<close>

fun state_of :: "flow \<Rightarrow> loop_state" where
  "state_of (Proceed s) = s"
| "state_of (NextPoll s) = s"
| "state_of (Stop e s) = s"

text \<open>
  The number of most recent consecutive queue polls in which the job was in neither queue
  and nothing was executing.
\<close>

definition quiet_streak :: "(bool \<times> bool) list \<Rightarrow> nat" where
  "quiet_streak recent = length (takeWhile (\<lambda>q. q = (False, False)) recent)"

text \<open>
  The queue-exit rule as an invariant of the loop: the counter is the quiet streak, and the
  flag is set only when the streak has reached the required length.
\<close>

definition exit_inv :: "loop_state \<Rightarrow> bool" where
  "exit_inv s \<longleftrightarrow>
     consecutive_not_in_queue s = quiet_streak (queue_polls s)
     \<and> (prompt_left_queue s \<longrightarrow> required_not_in_queue \<le> quiet_streak (queue_polls s))"

definition exit_view :: "loop_state \<Rightarrow> nat \<times> bool \<times> (bool \<times> bool) list" where
  "exit_view s = (consecutive_not_in_queue s, prompt_left_queue s, queue_polls s)"

text \<open>Sample poll histories, used to instantiate the properties.\<close>

definition sample_params :: wait_params where
  "sample_params =
     \<lparr>prompt_id = ''job'', timeout_minutes = 2, status_callback = True, start_time = 1000\<rparr>"

text \<open>
  The job is pending at the first poll and in no queue afterwards; node 11 has an output
  and nothing is reported as executing.
\<close>

definition queued_then_gone :: "nat \<Rightarrow> poll_obs" where
  "queued_then_gone k =
     \<lparr>history = HistoryResponse 200
        \<lparr>hd_prompt_entry = None, hd_error = None, hd_outputs = Some [''11''],
         hd_executing = None\<rparr>,
      history_delay = 1 / 10,
      queue =
        (if k = 0 then
           QueueResponse 200
             \<lparr>qd_running = None, qd_pending = Some [ItemList [None, Some ''job'']],
              qd_progress = None\<rparr>
         else QueueResponse 200 \<lparr>qd_running = Some [], qd_pending = Some [], qd_progress = None\<rparr>),
      queue_delay = 1 / 10\<rparr>"

text \<open>The history answers 200 with the body \<open>{"error": "boom"}\<close> at every poll.\<close>

definition error_body :: history_data where
  "error_body =
     \<lparr>hd_prompt_entry = None, hd_error = Some ''boom'', hd_outputs = None, hd_executing = None\<rparr>"

definition history_error :: "nat \<Rightarrow> poll_obs" where
  "history_error k =
     \<lparr>history = HistoryResponse 200 error_body, history_delay = 1 / 10,
      queue = QueueResponse 200 \<lparr>qd_running = Some [], qd_pending = Some [], qd_progress = None\<rparr>,
      queue_delay = 1 / 10\<rparr>"


section \<open>Graphs as Python objects (scripts/006-text-to-video-Wan2.1-Script/comfyui_client.py)\<close>

subsection \<open>Values, objects and the heap\<close>

text \<open>
  A graph is what \<open>json.load\<close> builds: dicts and lists, which are mutable objects held by
  reference, and immutable scalars. The heap is the list of the objects allocated so far;
  the address of an object is its index, and a new object is appended. Dict keys are
  strings, or integers (the injector can store the key \<open>0\<close>); the order of the entries is
  the insertion order.
\<close>

type_synonym addr = nat

datatype key = KStr string | KInt int

datatype pyval = VNone | VBool bool | VInt int | VFloat real | VStr string | VRef addr

datatype pyobj = ODict "(key \<times> pyval) list" | OList "pyval list"

type_synonym heap = "pyobj list"

datatype exc = TypeError | AttributeError | KeyError | IndexError | ValueError

text \<open>
  The outcome of an expression: a value, an exception, or \<open>Unsupported\<close> where the model
  does not say what Python does (a dangling reference, \<open>str\<close> of a float or of a
  container, \<open>float\<close> of a string, \<open>==\<close> between two different containers, a dict key
  that is neither a string nor an integer).
\<close>

datatype 'a result = Returns 'a | Raises exc | Unsupported

definition bind :: "'a result \<Rightarrow> ('a \<Rightarrow> 'b result) \<Rightarrow> 'b result" where
  "bind m f = (case m of Returns x \<Rightarrow> f x | Raises e \<Rightarrow> Raises e | Unsupported \<Rightarrow> Unsupported)"

text \<open>
  The same for a step that may change the heap: when the expression fails, the statement
  ends there and the heap stays as it is.
\<close>

definition bind_heap ::
    "'a result \<Rightarrow> heap \<Rightarrow> ('a \<Rightarrow> 'b result \<times> heap) \<Rightarrow> 'b result \<times> heap" where
  "bind_heap m h f =
     (case m of Returns x \<Rightarrow> f x | Raises e \<Rightarrow> (Raises e, h) | Unsupported \<Rightarrow> (Unsupported, h))"

definition object_at :: "heap \<Rightarrow> addr \<Rightarrow> pyobj option" where
  "object_at h a = (if a < length h then Some (h ! a) else None)"

definition alloc :: "heap \<Rightarrow> pyobj \<Rightarrow> pyval \<times> heap" where
  "alloc h obj = (VRef (length h), h @ [obj])"

text \<open>\<open>d[k] = v\<close> on the entries of a dict: an existing key keeps its place.\<close>

fun assoc_set :: "(key \<times> pyval) list \<Rightarrow> key \<Rightarrow> pyval \<Rightarrow> (key \<times> pyval) list" where
  "assoc_set [] k v = [(k, v)]"
| "assoc_set ((k', v') # kvs) k v =
     (if k' = k then (k, v) # kvs else (k', v') # assoc_set kvs k v)"

text \<open>The references an object holds.\<close>

fun val_refs :: "pyval \<Rightarrow> addr set" where
  "val_refs (VRef a) = {a}"
| "val_refs _ = {}"

fun obj_refs :: "pyobj \<Rightarrow> addr set" where
  "obj_refs (ODict kvs) = (\<Union>kv \<in> set kvs. val_refs (snd kv))"
| "obj_refs (OList xs) = (\<Union>x \<in> set xs. val_refs x)"

subsection \<open>Python expressions on heap values\<close>

text \<open>Truth value of a value.\<close>

definition truthy :: "heap \<Rightarrow> pyval \<Rightarrow> bool result" where
  "truthy h v =
     (case v of
        VNone \<Rightarrow> Returns False
      | VBool b \<Rightarrow> Returns b
      | VInt i \<Rightarrow> Returns (i \<noteq> 0)
      | VFloat r \<Rightarrow> Returns (r \<noteq> 0)
      | VStr s \<Rightarrow> Returns (s \<noteq> [])
      | VRef a \<Rightarrow>
          (case object_at h a of
             None \<Rightarrow> Unsupported
           | Some (ODict kvs) \<Rightarrow> Returns (kvs \<noteq> [])
           | Some (OList xs) \<Rightarrow> Returns (xs \<noteq> [])))"

text \<open>\<open>isinstance(v, list)\<close> and \<open>isinstance(v, dict)\<close>.\<close>

definition is_list :: "heap \<Rightarrow> pyval \<Rightarrow> bool result" where
  "is_list h v =
     (case v of
        VRef a \<Rightarrow>
          (case object_at h a of
             None \<Rightarrow> Unsupported
           | Some (ODict kvs) \<Rightarrow> Returns False
           | Some (OList xs) \<Rightarrow> Returns True)
      | _ \<Rightarrow> Returns False)"

definition is_dict :: "heap \<Rightarrow> pyval \<Rightarrow> bool result" where
  "is_dict h v =
     (case v of
        VRef a \<Rightarrow>
          (case object_at h a of
             None \<Rightarrow> Unsupported
           | Some (ODict kvs) \<Rightarrow> Returns True
           | Some (OList xs) \<Rightarrow> Returns False)
      | _ \<Rightarrow> Returns False)"

text \<open>\<open>v.get(k, default)\<close>: only a dict has the method.\<close>

definition dict_get :: "heap \<Rightarrow> pyval \<Rightarrow> string \<Rightarrow> pyval \<Rightarrow> pyval result" where
  "dict_get h v k dflt =
     (case v of
        VRef a \<Rightarrow>
          (case object_at h a of
             None \<Rightarrow> Unsupported
           | Some (ODict kvs) \<Rightarrow>
               Returns (case map_of kvs (KStr k) of None \<Rightarrow> dflt | Some x \<Rightarrow> x)
           | Some (OList xs) \<Rightarrow> Raises AttributeError)
      | _ \<Rightarrow> Raises AttributeError)"

text \<open>
  The position an index stands for in a sequence of \<open>n\<close> elements; a negative index
  counts from the end.
\<close>

definition position :: "nat \<Rightarrow> int \<Rightarrow> nat option" where
  "position n i =
     (if 0 \<le> i then (if i < int n then Some (nat i) else None)
      else (if - i \<le> int n then Some (nat (int n + i)) else None))"

definition seq_index :: "'a list \<Rightarrow> int \<Rightarrow> 'a result" where
  "seq_index xs i =
     (case position (length xs) i of None \<Rightarrow> Raises IndexError | Some j \<Rightarrow> Returns (xs ! j))"

text \<open>\<open>v[k]\<close> for a literal key \<open>k\<close>.\<close>

definition subscript :: "heap \<Rightarrow> pyval \<Rightarrow> key \<Rightarrow> pyval result" where
  "subscript h v k =
     (case v of
        VRef a \<Rightarrow>
          (case object_at h a of
             None \<Rightarrow> Unsupported
           | Some (ODict kvs) \<Rightarrow>
               (case map_of kvs k of None \<Rightarrow> Raises KeyError | Some x \<Rightarrow> Returns x)
           | Some (OList xs) \<Rightarrow>
               (case k of KStr s \<Rightarrow> Raises TypeError | KInt i \<Rightarrow> seq_index xs i))
      | VStr s \<Rightarrow>
          (case k of
             KStr t \<Rightarrow> Raises TypeError
           | KInt i \<Rightarrow> bind (seq_index s i) (\<lambda>c. Returns (VStr [c])))
      | _ \<Rightarrow> Raises TypeError)"

text \<open>\<open>k in v\<close> for a literal string \<open>k\<close>.\<close>

definition has_key :: "heap \<Rightarrow> pyval \<Rightarrow> string \<Rightarrow> bool result" where
  "has_key h v k =
     (case v of
        VRef a \<Rightarrow>
          (case object_at h a of
             None \<Rightarrow> Unsupported
           | Some (ODict kvs) \<Rightarrow> Returns (map_of kvs (KStr k) \<noteq> None)
           | Some (OList xs) \<Rightarrow> Returns (VStr k \<in> set xs))
      | VStr s \<Rightarrow> Returns (contains s k)
      | _ \<Rightarrow> Raises TypeError)"

definition py_len :: "heap \<Rightarrow> pyval \<Rightarrow> nat result" where
  "py_len h v =
     (case v of
        VRef a \<Rightarrow>
          (case object_at h a of
             None \<Rightarrow> Unsupported
           | Some (ODict kvs) \<Rightarrow> Returns (length kvs)
           | Some (OList xs) \<Rightarrow> Returns (length xs))
      | VStr s \<Rightarrow> Returns (length s)
      | _ \<Rightarrow> Raises TypeError)"

text \<open>What \<open>for x in v\<close> runs through.\<close>

definition elements :: "heap \<Rightarrow> pyval \<Rightarrow> pyval list result" where
  "elements h v =
     (case v of
        VRef a \<Rightarrow>
          (case object_at h a of
             None \<Rightarrow> Unsupported
           | Some (ODict kvs) \<Rightarrow>
               Returns (map (\<lambda>kv. case fst kv of KStr s \<Rightarrow> VStr s | KInt i \<Rightarrow> VInt i) kvs)
           | Some (OList xs) \<Rightarrow> Returns xs)
      | VStr s \<Rightarrow> Returns (map (\<lambda>c. VStr [c]) s)
      | _ \<Rightarrow> Raises TypeError)"

text \<open>The values of \<open>v.items()\<close>.\<close>

definition item_values :: "heap \<Rightarrow> pyval \<Rightarrow> pyval list result" where
  "item_values h v =
     (case v of
        VRef a \<Rightarrow>
          (case object_at h a of
             None \<Rightarrow> Unsupported
           | Some (ODict kvs) \<Rightarrow> Returns (map snd kvs)
           | Some (OList xs) \<Rightarrow> Raises AttributeError)
      | _ \<Rightarrow> Raises AttributeError)"

definition py_str :: "heap \<Rightarrow> pyval \<Rightarrow> string result" where
  "py_str h v =
     (case v of
        VNone \<Rightarrow> Returns ''None''
      | VBool b \<Rightarrow> Returns (if b then ''True'' else ''False'')
      | VInt i \<Rightarrow> Returns (str_int i)
      | VStr s \<Rightarrow> Returns s
      | _ \<Rightarrow> Unsupported)"

definition py_float :: "pyval \<Rightarrow> real result" where
  "py_float v =
     (case v of
        VBool b \<Rightarrow> Returns (if b then 1 else 0)
      | VInt i \<Rightarrow> Returns (real_of_int i)
      | VFloat r \<Rightarrow> Returns r
      | VStr s \<Rightarrow> Unsupported
      | _ \<Rightarrow> Raises TypeError)"

text \<open>\<open>a == b\<close>: numbers (and booleans) by value, strings by content.\<close>

definition num_value :: "pyval \<Rightarrow> real option" where
  "num_value v =
     (case v of
        VBool b \<Rightarrow> Some (if b then 1 else 0)
      | VInt i \<Rightarrow> Some (real_of_int i)
      | VFloat r \<Rightarrow> Some r
      | _ \<Rightarrow> None)"

definition py_eq :: "pyval \<Rightarrow> pyval \<Rightarrow> bool result" where
  "py_eq a b =
     (case (a, b) of
        (VRef x, VRef y) \<Rightarrow> if x = y then Returns True else Unsupported
      | (VStr s, VStr t) \<Rightarrow> Returns (s = t)
      | (VNone, VNone) \<Rightarrow> Returns True
      | _ \<Rightarrow>
          (case (num_value a, num_value b) of
             (Some x, Some y) \<Rightarrow> Returns (x = y)
           | _ \<Rightarrow> Returns False))"

text \<open>
  \<open>w[k] = v\<close> for a literal key: a list takes an index in range, a dict any key, nothing
  else supports item assignment.
\<close>

definition set_item :: "heap \<Rightarrow> pyval \<Rightarrow> key \<Rightarrow> pyval \<Rightarrow> unit result \<times> heap" where
  "set_item h w k v =
     (case w of
        VRef a \<Rightarrow>
          (case object_at h a of
             None \<Rightarrow> (Unsupported, h)
           | Some (ODict kvs) \<Rightarrow> (Returns (), h[a := ODict (assoc_set kvs k v)])
           | Some (OList xs) \<Rightarrow>
               (case k of
                  KStr s \<Rightarrow> (Raises TypeError, h)
                | KInt i \<Rightarrow>
                    (case position (length xs) i of
                       None \<Rightarrow> (Raises IndexError, h)
                     | Some j \<Rightarrow> (Returns (), h[a := OList (xs[j := v])]))))
      | _ \<Rightarrow> (Raises TypeError, h))"

subsection \<open>json.dumps and json.loads\<close>

datatype json =
  JNull | JBool bool | JInt int | JFloat real | JStr string
  | JArr "json list" | JObj "(string \<times> json) list"

text \<open>
  \<open>json.dumps\<close> walks the objects reachable from the value and raises \<open>ValueError\<close> on a
  circular reference. The depth bound stands for that check: a chain of containers longer
  than the number of objects of the heap repeats an object. Integer keys are written as
  their decimal text.
\<close>

fun dumps_depth :: "nat \<Rightarrow> heap \<Rightarrow> pyval \<Rightarrow> json result"
  and dumps_list :: "nat \<Rightarrow> heap \<Rightarrow> pyval list \<Rightarrow> json list result"
  and dumps_items :: "nat \<Rightarrow> heap \<Rightarrow> (key \<times> pyval) list \<Rightarrow> (string \<times> json) list result"
where
  "dumps_depth n h VNone = Returns JNull"
| "dumps_depth n h (VBool b) = Returns (JBool b)"
| "dumps_depth n h (VInt i) = Returns (JInt i)"
| "dumps_depth n h (VFloat r) = Returns (JFloat r)"
| "dumps_depth n h (VStr s) = Returns (JStr s)"
| "dumps_depth 0 h (VRef a) = Raises ValueError"
| "dumps_depth (Suc n) h (VRef a) =
     (case object_at h a of
        None \<Rightarrow> Unsupported
      | Some (OList xs) \<Rightarrow> bind (dumps_list n h xs) (\<lambda>js. Returns (JArr js))
      | Some (ODict kvs) \<Rightarrow> bind (dumps_items n h kvs) (\<lambda>fs. Returns (JObj fs)))"
| "dumps_list n h [] = Returns []"
| "dumps_list n h (x # xs) =
     bind (dumps_depth n h x) (\<lambda>j. bind (dumps_list n h xs) (\<lambda>js. Returns (j # js)))"
| "dumps_items n h [] = Returns []"
| "dumps_items n h (kv # kvs) =
     bind (dumps_depth n h (snd kv))
       (\<lambda>j. bind (dumps_items n h kvs)
         (\<lambda>fs. Returns ((case fst kv of KStr s \<Rightarrow> s | KInt i \<Rightarrow> str_int i, j) # fs)))"

definition dumps :: "heap \<Rightarrow> pyval \<Rightarrow> json result" where
  "dumps h v = dumps_depth (length h) h v"

text \<open>
  \<open>json.loads\<close> builds new objects only. Of a repeated key of an object the last value is
  kept.
\<close>

fun loads :: "json \<Rightarrow> heap \<Rightarrow> pyval \<times> heap"
  and loads_list :: "json list \<Rightarrow> heap \<Rightarrow> pyval list \<times> heap"
  and loads_fields :: "(string \<times> json) list \<Rightarrow> heap \<Rightarrow> (key \<times> pyval) list \<times> heap"
where
  "loads JNull h = (VNone, h)"
| "loads (JBool b) h = (VBool b, h)"
| "loads (JInt i) h = (VInt i, h)"
| "loads (JFloat r) h = (VFloat r, h)"
| "loads (JStr s) h = (VStr s, h)"
| "loads (JArr js) h = (case loads_list js h of (vs, h1) \<Rightarrow> alloc h1 (OList vs))"
| "loads (JObj fs) h =
     (case loads_fields fs h of
        (kvs, h1) \<Rightarrow> alloc h1 (ODict (foldl (\<lambda>acc kv. assoc_set acc (fst kv) (snd kv)) [] kvs)))"
| "loads_list [] h = ([], h)"
| "loads_list (j # js) h =
     (case loads j h of (v, h1) \<Rightarrow> (case loads_list js h1 of (vs, h2) \<Rightarrow> (v # vs, h2)))"
| "loads_fields [] h = ([], h)"
| "loads_fields (f # fs) h =
     (case loads (snd f) h of
        (v, h1) \<Rightarrow> (case loads_fields fs h1 of (kvs, h2) \<Rightarrow> ((KStr (fst f), v) # kvs, h2)))"

subsection \<open>update_workflow\<close>

text \<open>The body of the loop over the nodes, the same for a list and for a dict of nodes.\<close>

definition update_node :: "heap \<Rightarrow> pyval \<Rightarrow> string \<Rightarrow> unit result \<times> heap" where
  "update_node h node prompt =
     bind_heap (dict_get h node ''type'' VNone) h (\<lambda>node_type.
       if node_type = VStr ''WanVideoTextEncode'' then
         bind_heap (has_key h node ''widgets_values'') h (\<lambda>present.
           if present then
             bind_heap (subscript h node (KStr ''widgets_values'')) h (\<lambda>widgets_values.
               bind_heap (py_len h widgets_values) h (\<lambda>n.
                 if n \<ge> 1 then set_item h widgets_values (KInt 0) (VStr prompt)
                 else (Returns (), h)))
           else (Returns (), h))
       else (Returns (), h))"

fun update_nodes :: "heap \<Rightarrow> pyval list \<Rightarrow> string \<Rightarrow> unit result \<times> heap" where
  "update_nodes h [] prompt = (Returns (), h)"
| "update_nodes h (node # nodes) prompt =
     (case update_node h node prompt of
        (Returns u, h1) \<Rightarrow> update_nodes h1 nodes prompt
      | (Raises e, h1) \<Rightarrow> (Raises e, h1)
      | (Unsupported, h1) \<Rightarrow> (Unsupported, h1))"

text \<open>
  The statements after the copy: \<open>updated_workflow\<close> is the copy. The nodes of the copy
  are distinct objects, so the loop runs through the nodes as they were when it started.
\<close>

definition inject_prompt :: "heap \<Rightarrow> pyval \<Rightarrow> string \<Rightarrow> unit result \<times> heap" where
  "inject_prompt h updated_workflow prompt =
     bind_heap (has_key h updated_workflow ''nodes'') h (\<lambda>present.
       if present then
         bind_heap (subscript h updated_workflow (KStr ''nodes'')) h (\<lambda>nodes.
           bind_heap (is_list h nodes) h (\<lambda>nodes_is_list.
             if nodes_is_list then
               bind_heap (elements h nodes) h (\<lambda>ns. update_nodes h ns prompt)
             else
               bind_heap (is_dict h nodes) h (\<lambda>nodes_is_dict.
                 if nodes_is_dict then
                   bind_heap (item_values h nodes) h (\<lambda>ns. update_nodes h ns prompt)
                 else (Returns (), h))))
       else (Returns (), h))"

definition update_workflow :: "heap \<Rightarrow> pyval \<Rightarrow> string \<Rightarrow> pyval result \<times> heap" where
  "update_workflow h workflow prompt =
     bind_heap (dumps h workflow) h (\<lambda>dumped.
       case loads dumped h of
         (updated_workflow, h1) \<Rightarrow>
           (case inject_prompt h1 updated_workflow prompt of
              (Returns u, h2) \<Rightarrow> (Returns updated_workflow, h2)
            | (Raises e, h2) \<Rightarrow> (Raises e, h2)
            | (Unsupported, h2) \<Rightarrow> (Unsupported, h2)))"

subsection \<open>The compiler, _transform_workflow_to_api_format\<close>

text \<open>
  Running one statement after another: an exception of the first ends the sequence, with
  the heap as the first left it.
\<close>

definition then_heap ::
    "unit result \<times> heap \<Rightarrow> (heap \<Rightarrow> 'b result \<times> heap) \<Rightarrow> 'b result \<times> heap" where
  "then_heap first rest =
     (case first of
        (Returns u, h) \<Rightarrow> rest h
      | (Raises e, h) \<Rightarrow> (Raises e, h)
      | (Unsupported, h) \<Rightarrow> (Unsupported, h))"

text \<open>
  A dict display \<open>{k1: e1, k2: e2, ...}\<close>: the values are evaluated from left to right and
  the first failure ends the evaluation.
\<close>

fun collect :: "(string \<times> pyval result) list \<Rightarrow> (key \<times> pyval) list result" where
  "collect [] = Returns []"
| "collect (entry # entries) =
     bind (snd entry) (\<lambda>v. bind (collect entries) (\<lambda>kvs. Returns ((KStr (fst entry), v) # kvs)))"

definition widget :: "heap \<Rightarrow> pyval \<Rightarrow> int \<Rightarrow> pyval result" where
  "widget h widget_values i = subscript h widget_values (KInt i)"

text \<open>
  The chain \<open>if node["type"] == ... elif ...\<close> of \<open>_process_node_inputs\<close>: the entries
  passed to \<open>node_config["inputs"].update\<close>, none when no branch applies or the list of
  widget values is too short.
\<close>

definition widget_inputs :: "heap \<Rightarrow> pyval \<Rightarrow> pyval \<Rightarrow> (key \<times> pyval) list result" where
  "widget_inputs h node_type wv =
     (if node_type = VStr ''WanVideoTextEncode'' then
        bind (py_len h wv) (\<lambda>n.
          if n \<ge> 2 then
            collect
              [(''positive_prompt'', widget h wv 0),
               (''negative_prompt'', widget h wv 1),
               (''force_zeros'', if n > 2 then widget h wv 2 else Returns (VBool True))]
          else Returns [])
      else if node_type = VStr ''WanVideoBlockSwap'' then
        bind (py_len h wv) (\<lambda>n.
          if n \<ge> 5 then
            collect
              [(''blocks_to_swap'', widget h wv 0),
               (''offload_txt_emb'', widget h wv 1),
               (''offload_img_emb'', widget h wv 2),
               (''non_blocking'', widget h wv 3),
               (''vace_blocks_to_swap'', widget h wv 4)]
          else Returns [])
      else if node_type = VStr ''WanVideoEmptyEmbeds'' then
        bind (py_len h wv) (\<lambda>n.
          if n \<ge> 3 then
            collect
              [(''width'', widget h wv 0),
               (''height'', widget h wv 1),
               (''num_frames'', widget h wv 2)]
          else Returns [])
      else if node_type = VStr ''WanVideoTorchCompileSettings'' then
        bind (py_len h wv) (\<lambda>n.
          if n \<ge> 7 then
            collect
              [(''backend'', widget h wv 0),
               (''fullgraph'', widget h wv 1),
               (''mode'', widget h wv 2),
               (''max_autotune'', widget h wv 3),
               (''max_autotune_gemm_backends'', widget h wv 4),
               (''use_fp16_cast'', widget h wv 5),
               (''max_autotune_gemm_warmup'', widget h wv 6),
               (''compile_transformer_blocks_only'', Returns (VBool False)),
               (''dynamic'', Returns (VBool False)),
               (''dynamo_cache_size_limit'', Returns (VInt 64))]
          else Returns [])
      else if node_type = VStr ''WanVideoTeaCache'' then
        bind (py_len h wv) (\<lambda>n.
          if n \<ge> 6 then
            collect
              [(''start_step'', widget h wv 0),
               (''end_step'', widget h wv 1),
               (''rel_l1_thresh'',
                  bind (widget h wv 2) (\<lambda>x. bind (py_float x) (\<lambda>r. Returns (VFloat (max 0 r))))),
               (''cache_device'', widget h wv 3),
               (''use_coefficients'',
                  bind (widget h wv 4) (\<lambda>x.
                    case x of VStr s \<Rightarrow> Returns (VBool (s = ''true'')) | _ \<Rightarrow> Returns x)),
               (''coeff_mode'', widget h wv 5)]
          else Returns [])
      else if node_type = VStr ''WanVideoEnhanceAVideo'' then
        bind (py_len h wv) (\<lambda>n.
          if n \<ge> 3 then
            collect
              [(''enhance_factor'', widget h wv 0),
               (''enhance_start'', widget h wv 1),
               (''enhance_end'', widget h wv 2),
               (''start_percent'', Returns (VInt 0)),
               (''end_percent'', Returns (VInt 1)),
               (''weight'', Returns (VInt 1))]
          else Returns [])
      else if node_type = VStr ''WanVideoSampler'' then
        bind (py_len h wv) (\<lambda>n.
          if n \<ge> 10 then
            collect
              [(''steps'', widget h wv 0),
               (''cfg'', widget h wv 1),
               (''shift'', widget h wv 2),
               (''seed'', widget h wv 3),
               (''sampler_name'', widget h wv 4),
               (''diffusion_type'', widget h wv 5),
               (''scheduler'', widget h wv 6),
               (''riflex_freq_index'', widget h wv 7),
               (''implementation'', if n > 10 then widget h wv 10 else Returns (VStr ''comfy''))]
          else Returns [])
      else if node_type = VStr ''WanVideoDecode'' then
        bind (py_len h wv) (\<lambda>n.
          if n \<ge> 5 then
            collect
              [(''restore_faces'', widget h wv 0),
               (''tile_x'', widget h wv 1),
               (''tile_y'', widget h wv 2),
               (''tile_stride_x'', widget h wv 3),
               (''tile_stride_y'', widget h wv 4),
               (''enable_vae_tiling'', Returns (VBool True))]
          else Returns [])
      else if node_type = VStr ''WanVideoVAELoader'' then
        bind (py_len h wv) (\<lambda>n.
          if n \<ge> 2 then
            collect
              [(''model_name'', widget h wv 0),
               (''precision'', widget h wv 1)]
          else Returns [])
      else if node_type = VStr ''WanVideoModelLoader'' then
        bind (py_len h wv) (\<lambda>n.
          if n \<ge> 5 then
            bind (if n > 2 then widget h wv 2 else Returns (VStr ''disabled'')) (\<lambda>quantization.
              case quantization of
                VStr q \<Rightarrow>
                  collect
                    [(''model'', widget h wv 0),
                     (''base_precision'', widget h wv 1),
                     (''quantization'',
                        Returns (if contains (lower q) ''fp8'' then VStr ''disabled''
                                 else quantization)),
                     (''load_device'', widget h wv 3),
                     (''attention_implementation'', widget h wv 4)]
              | _ \<Rightarrow> Raises AttributeError)
          else Returns [])
      else if node_type = VStr ''VHS_VideoCombine'' then
        bind (is_dict h wv) (\<lambda>d.
          if d then
            collect
              [(''frame_rate'', dict_get h wv ''frame_rate'' (VInt 24)),
               (''loop_count'', dict_get h wv ''loop_count'' (VInt 0)),
               (''filename_prefix'', dict_get h wv ''filename_prefix'' (VStr ''video_output'')),
               (''format'', dict_get h wv ''format'' (VStr ''video/h264-mp4'')),
               (''pingpong'', dict_get h wv ''pingpong'' (VBool False)),
               (''save_output'', dict_get h wv ''save_output'' (VBool True))]
          else Returns [])
      else Returns [])"

text \<open>\<open>d.update(entries)\<close> on the dict \<open>d\<close>.\<close>

definition dict_update :: "heap \<Rightarrow> pyval \<Rightarrow> (key \<times> pyval) list \<Rightarrow> unit result \<times> heap" where
  "dict_update h d entries =
     (case d of
        VRef a \<Rightarrow>
          (case object_at h a of
             Some (ODict kvs) \<Rightarrow>
               (Returns (),
                h[a := ODict (foldl (\<lambda>acc kv. assoc_set acc (fst kv) (snd kv)) kvs entries)])
           | _ \<Rightarrow> (Unsupported, h))
      | _ \<Rightarrow> (Unsupported, h))"

text \<open>
  The loop \<open>for link in workflow["links"]\<close> up to its \<open>break\<close>: the producer id as a
  string and the output index of the first link whose id equals \<open>link_id\<close>.
\<close>

fun find_link :: "heap \<Rightarrow> pyval list \<Rightarrow> pyval \<Rightarrow> (pyval \<times> pyval) option result" where
  "find_link h [] link_id = Returns None"
| "find_link h (link # links) link_id =
     bind (subscript h link (KInt 0)) (\<lambda>id0.
       bind (py_eq id0 link_id) (\<lambda>same.
         if same then
           bind (subscript h link (KInt 1)) (\<lambda>source.
             bind (py_str h source) (\<lambda>source_node_id.
               bind (subscript h link (KInt 2)) (\<lambda>output_index.
                 Returns (Some (VStr source_node_id, output_index)))))
         else find_link h links link_id))"

text \<open>A value used as the key of a dict entry that is stored.\<close>

definition as_key :: "pyval \<Rightarrow> key result" where
  "as_key v =
     (case v of
        VStr s \<Rightarrow> Returns (KStr s)
      | VInt i \<Rightarrow> Returns (KInt i)
      | VRef a \<Rightarrow> Raises TypeError
      | _ \<Rightarrow> Unsupported)"

text \<open>The body of \<open>for input_data in node["inputs"]\<close>.\<close>

definition link_input :: "heap \<Rightarrow> pyval \<Rightarrow> pyval \<Rightarrow> pyval \<Rightarrow> unit result \<times> heap" where
  "link_input h workflow inputs input_data =
     bind_heap (subscript h input_data (KStr ''name'')) h (\<lambda>input_name.
       bind_heap (dict_get h input_data ''link'' VNone) h (\<lambda>link_id.
         if link_id \<noteq> VNone then
           bind_heap (subscript h workflow (KStr ''links'')) h (\<lambda>links.
             bind_heap (elements h links) h (\<lambda>ls.
               bind_heap (find_link h ls link_id) h (\<lambda>found.
                 case found of
                   None \<Rightarrow> (Returns (), h)
                 | Some (source_node_id, output_index) \<Rightarrow>
                     (case alloc h (OList [source_node_id, output_index]) of
                        (pair, h1) \<Rightarrow>
                          bind_heap (as_key input_name) h1 (\<lambda>k. set_item h1 inputs k pair)))))
         else (Returns (), h)))"

fun link_inputs :: "heap \<Rightarrow> pyval \<Rightarrow> pyval \<Rightarrow> pyval list \<Rightarrow> unit result \<times> heap" where
  "link_inputs h workflow inputs [] = (Returns (), h)"
| "link_inputs h workflow inputs (input_data # rest) =
     then_heap (link_input h workflow inputs input_data)
       (\<lambda>h1. link_inputs h1 workflow inputs rest)"

text \<open>
  \<open>_process_node_inputs\<close>; \<open>inputs\<close> is the dict \<open>node_config["inputs"]\<close>.
\<close>

definition process_node_inputs :: "heap \<Rightarrow> pyval \<Rightarrow> pyval \<Rightarrow> pyval \<Rightarrow> unit result \<times> heap" where
  "process_node_inputs h node inputs workflow =
     then_heap
       (bind_heap (has_key h node ''widgets_values'') h (\<lambda>present.
          if present then
            bind_heap (subscript h node (KStr ''widgets_values'')) h (\<lambda>widget_values.
              bind_heap (subscript h node (KStr ''type'')) h (\<lambda>node_type.
                bind_heap (widget_inputs h node_type widget_values) h (\<lambda>entries.
                  if entries = [] then (Returns (), h) else dict_update h inputs entries)))
          else (Returns (), h)))
       (\<lambda>h1.
          bind_heap (has_key h1 node ''inputs'') h1 (\<lambda>has_inputs.
            if has_inputs then
              bind_heap (dict_get h1 workflow ''links'' VNone) h1 (\<lambda>links.
                bind_heap (truthy h1 links) h1 (\<lambda>has_links.
                  if has_links then
                    bind_heap (subscript h1 node (KStr ''inputs'')) h1 (\<lambda>node_inputs.
                      bind_heap (elements h1 node_inputs) h1 (\<lambda>input_list.
                        link_inputs h1 workflow inputs input_list))
                  else (Returns (), h1)))
            else (Returns (), h1)))"

text \<open>The body of \<open>for node in workflow["nodes"]\<close>; \<open>api_prompt\<close> is the dict being built.\<close>

definition transform_node :: "heap \<Rightarrow> pyval \<Rightarrow> pyval \<Rightarrow> pyval \<Rightarrow> unit result \<times> heap" where
  "transform_node h workflow api_prompt node =
     bind_heap (subscript h node (KStr ''type'')) h (\<lambda>node_type.
       if node_type = VStr ''Note'' then (Returns (), h)
       else
         bind_heap (dict_get h node ''class_type'' VNone) h (\<lambda>declared.
           bind_heap (truthy h declared) h (\<lambda>has_declared.
             bind_heap (if has_declared then Returns declared
                        else subscript h node (KStr ''type'')) h (\<lambda>class_type.
               case alloc h (ODict []) of
                 (inputs, h1) \<Rightarrow>
                   (case alloc h1 (ODict [(KStr ''class_type'', class_type),
                                          (KStr ''inputs'', inputs)]) of
                      (node_config, h2) \<Rightarrow>
                        then_heap
                          (bind_heap (dict_get h2 node ''title'' VNone) h2 (\<lambda>title.
                             bind_heap (truthy h2 title) h2 (\<lambda>has_title.
                               if has_title then
                                 bind_heap (subscript h2 node (KStr ''title'')) h2 (\<lambda>t.
                                   case alloc h2 (ODict [(KStr ''title'', t)]) of
                                     (meta, h3) \<Rightarrow> set_item h3 node_config (KStr ''_meta'') meta)
                               else (Returns (), h2))))
                          (\<lambda>h4.
                             then_heap (process_node_inputs h4 node inputs workflow)
                               (\<lambda>h5.
                                  bind_heap (subscript h5 node (KStr ''id'')) h5 (\<lambda>node_id.
                                    bind_heap (py_str h5 node_id) h5 (\<lambda>id_text.
                                      set_item h5 api_prompt (KStr id_text) node_config)))))))))"

fun transform_nodes :: "heap \<Rightarrow> pyval \<Rightarrow> pyval \<Rightarrow> pyval list \<Rightarrow> unit result \<times> heap" where
  "transform_nodes h workflow api_prompt [] = (Returns (), h)"
| "transform_nodes h workflow api_prompt (node # nodes) =
     then_heap (transform_node h workflow api_prompt node)
       (\<lambda>h1. transform_nodes h1 workflow api_prompt nodes)"

definition transform_workflow_to_api_format :: "heap \<Rightarrow> pyval \<Rightarrow> pyval result \<times> heap" where
  "transform_workflow_to_api_format h workflow =
     bind_heap (dict_get h workflow ''nodes'' VNone) h (\<lambda>nodes.
       bind_heap (truthy h nodes) h (\<lambda>has_nodes.
         if \<not> has_nodes then
           bind_heap (dict_get h workflow ''prompt'' VNone) h (\<lambda>prompt.
             bind_heap (truthy h prompt) h (\<lambda>has_prompt.
               if has_prompt then (subscript h workflow (KStr ''prompt''), h)
               else (Returns workflow, h)))
         else
           bind_heap (is_dict h nodes) h (\<lambda>nodes_is_dict.
             if nodes_is_dict then (subscript h workflow (KStr ''nodes''), h)
             else
               (case alloc h (ODict []) of
                  (api_prompt, h1) \<Rightarrow>
                    bind_heap (subscript h1 workflow (KStr ''nodes'')) h1 (\<lambda>node_list.
                      bind_heap (elements h1 node_list) h1 (\<lambda>ns.
                        then_heap (transform_nodes h1 workflow api_prompt ns)
                          (\<lambda>h2. (Returns api_prompt, h2))))))))"

text \<open>Vocabulary for the frame properties.\<close>

text \<open>Every object of \<open>h\<close> is still there, unchanged, in \<open>h'\<close>.\<close>

definition preserved :: "heap \<Rightarrow> heap \<Rightarrow> bool" where
  "preserved h h' \<longleftrightarrow> length h \<le> length h' \<and> take (length h) h' = h"

text \<open>The addresses of the objects reachable from a value.\<close>

inductive_set reachable :: "heap \<Rightarrow> pyval \<Rightarrow> addr set" for h :: heap and v :: pyval where
  root: "a \<in> val_refs v \<Longrightarrow> a \<in> reachable h v"
| step: "a \<in> reachable h v \<Longrightarrow> a < length h \<Longrightarrow> b \<in> obj_refs (h ! a) \<Longrightarrow> b \<in> reachable h v"

text \<open>
  From address \<open>n\<close> on, the objects of the heap refer only to objects from \<open>n\<close> on.
\<close>

definition closed_from :: "nat \<Rightarrow> heap \<Rightarrow> bool" where
  "closed_from n h \<longleftrightarrow>
     (\<forall>a. n \<le> a \<and> a < length h \<longrightarrow> (\<forall>r \<in> obj_refs (h ! a). n \<le> r \<and> r < length h))"


text \<open>A value that refers, if at all, to an object at an address from \<open>n\<close> on, within \<open>h\<close>.\<close>

definition fresh :: "nat \<Rightarrow> heap \<Rightarrow> pyval \<Rightarrow> bool" where
  "fresh n h v \<longleftrightarrow> (\<forall>r \<in> val_refs v. n \<le> r \<and> r < length h)"

text \<open>
  A step from \<open>h\<close> to \<open>h'\<close> that allocates nothing, changes no object below address \<open>n\<close>
  and keeps the part from \<open>n\<close> on closed.
\<close>

definition kept :: "nat \<Rightarrow> heap \<Rightarrow> heap \<Rightarrow> bool" where
  "kept n h h' \<longleftrightarrow> length h' = length h \<and> take n h' = take n h \<and> closed_from n h'"

text \<open>A sample graph in visual form: one text-encoding node with two widget values.\<close>

definition sample_graph :: heap where
  "sample_graph =
     [OList [VStr ''old prompt'', VStr ''negative''],
      ODict [(KStr ''id'', VInt 16), (KStr ''type'', VStr ''WanVideoTextEncode''),
             (KStr ''widgets_values'', VRef 0)],
      OList [VRef 1],
      ODict [(KStr ''nodes'', VRef 2)]]"

text \<open>
  A sample graph without a node list: a wrapper with the entries \<open>prompt\<close> (an execution
  form with the single node 5) and \<open>client_id\<close>.
\<close>

definition wrapped_graph :: heap where
  "wrapped_graph =
     [ODict [(KStr ''class_type'', VStr ''Note'')],
      ODict [(KStr ''5'', VRef 0)],
      ODict [(KStr ''prompt'', VRef 1), (KStr ''client_id'', VStr ''c'')]]"

section \<open>Properties of the derived parameters\<close>

lemma py_round_up: "0 \<le> d \<Longrightarrow> py_int d + (if py_mod1 d > 0 then 1 else 0) = \<lceil>d\<rceil>"
proof -
  assume nonneg: "0 \<le> d"
  show ?thesis
  proof (cases "d = of_int \<lfloor>d\<rfloor>")
    case True
    then have "\<lceil>d\<rceil> = \<lfloor>d\<rfloor>"
      by (metis ceiling_of_int)
    with True nonneg show ?thesis
      by (simp add: py_int_def py_mod1_def)
  next
    case False
    then have "of_int \<lfloor>d\<rfloor> < d"
      using of_int_floor_le [of d] by linarith
    moreover from False have "\<lceil>d\<rceil> = \<lfloor>d\<rfloor> + 1"
      by (metis ceiling_altdef)
    ultimately show ?thesis
      using nonneg by (simp add: py_int_def py_mod1_def)
  qed
qed

text \<open>
  C2. For every non-negative raw duration \<open>d\<close> the injected duration is \<open>ceil d + 1\<close>;
  3.1 seconds give 5, 4.0 seconds give 5 and 0 seconds give 1.
\<close>

theorem get_audio_duration_ceil_plus_one:
  "(0 \<le> d \<longrightarrow> get_audio_duration (FileAudio (LengthSeconds d)) = \<lceil>d\<rceil> + 1)
   \<and> get_audio_duration (FileAudio (LengthSeconds 3.1)) = 5
   \<and> get_audio_duration (FileAudio (LengthSeconds 4.0)) = 5
   \<and> get_audio_duration (FileAudio (LengthSeconds 0)) = 1"
proof -
  have general: "get_audio_duration (FileAudio (LengthSeconds x)) = \<lceil>x\<rceil> + 1" if "0 \<le> x" for x
    using py_round_up [OF that] by (simp add: Let_def)
  have "get_audio_duration (FileAudio (LengthSeconds 3.1)) = \<lceil>3.1 :: real\<rceil> + 1"
    by (rule general) simp
  moreover have "\<lceil>3.1 :: real\<rceil> = 4"
    by (simp add: ceiling_eq_iff)
  moreover have "get_audio_duration (FileAudio (LengthSeconds 4.0)) = \<lceil>4.0 :: real\<rceil> + 1"
    by (rule general) simp
  moreover have "get_audio_duration (FileAudio (LengthSeconds 0)) = \<lceil>0 :: real\<rceil> + 1"
    by (rule general) simp
  ultimately show ?thesis
    using general by simp
qed

theorem get_audio_duration_ceil_plus_one_witness:
  "(0 :: real) \<le> 7.8 \<and> get_audio_duration (FileAudio (LengthSeconds 7.8)) = 9"
proof -
  have "\<lceil>7.8 :: real\<rceil> = 8"
    by (simp add: ceiling_eq_iff)
  then show ?thesis
    using get_audio_duration_ceil_plus_one [of "7.8"] by simp
qed

text \<open>
  C10. When the audio cannot be loaded (the loader raises or returns nothing) or its
  length cannot be read, no error escapes: the result is the default of 5 seconds.
\<close>

theorem get_audio_duration_default:
  "get_audio_duration FileRaises = 5
   \<and> get_audio_duration FileNone = 5
   \<and> get_audio_duration (FileAudio LengthRaises) = 5
   \<and> get_audio_duration (FileAudio LengthNotFinite) = 5"
  by simp

text \<open>
  C3. For positive width and height the selection returns one of the three canonical
  sizes: the one whose ratio (16:9, 9:16, 1:1) is closest to width/height, landscape
  winning a tie over portrait and square, portrait winning a tie over square. A square
  input gives the square size and 1920 by 1080 gives landscape.
\<close>

theorem get_optimal_dimensions_closest:
  "0 < w \<Longrightarrow> 0 < h \<Longrightarrow>
   (let r = real_of_int w / real_of_int h;
        l = \<bar>r - 16 / 9\<bar>; p = \<bar>r - 9 / 16\<bar>; s = \<bar>r - 1\<bar>;
        d = get_optimal_dimensions (ImageSize w h)
    in d \<in> {(1024, 576), (576, 1024), (576, 576)}
       \<and> (d = (1024, 576) \<longleftrightarrow> l \<le> p \<and> l \<le> s)
       \<and> (d = (576, 1024) \<longleftrightarrow> p < l \<and> p \<le> s)
       \<and> (d = (576, 576) \<longleftrightarrow> s < l \<and> s < p))
   \<and> get_optimal_dimensions (ImageSize w w) = (576, 576)
   \<and> get_optimal_dimensions (ImageSize 1920 1080) = (1024, 576)"
proof -
  assume pos: "0 < w" "0 < h"
  have square: "get_optimal_dimensions (ImageSize w w) = (576, 576)"
    using pos by (simp add: LANDSCAPE_def PORTRAIT_def SQUARE_def)
  have hd: "get_optimal_dimensions (ImageSize 1920 1080) = (1024, 576)"
    by (simp add: LANDSCAPE_def PORTRAIT_def SQUARE_def)
  have sel: "let r = real_of_int w / real_of_int h;
        l = \<bar>r - 16 / 9\<bar>; p = \<bar>r - 9 / 16\<bar>; s = \<bar>r - 1\<bar>;
        d = get_optimal_dimensions (ImageSize w h)
    in d \<in> {(1024, 576), (576, 1024), (576, 576)}
       \<and> (d = (1024, 576) \<longleftrightarrow> l \<le> p \<and> l \<le> s)
       \<and> (d = (576, 1024) \<longleftrightarrow> p < l \<and> p \<le> s)
       \<and> (d = (576, 576) \<longleftrightarrow> s < l \<and> s < p)"
    using pos by (auto simp: Let_def LANDSCAPE_def PORTRAIT_def SQUARE_def min_def)
  from sel square hd show ?thesis
    by simp
qed

theorem get_optimal_dimensions_closest_witness:
  "(0 :: int) < 25 \<and> (0 :: int) < 18
   \<and> get_optimal_dimensions (ImageSize 25 18) = (1024, 576)
   \<and> get_optimal_dimensions (ImageSize 25 32) = (576, 1024)
   \<and> get_optimal_dimensions (ImageSize 9 10) = (576, 576)"
proof -
  have a: "get_optimal_dimensions (ImageSize 25 18) = (1024, 576)"
    using get_optimal_dimensions_closest [of 25 18] by (simp add: Let_def)
  have b: "get_optimal_dimensions (ImageSize 25 32) = (576, 1024)"
    using get_optimal_dimensions_closest [of 25 32] by (simp add: Let_def)
  have c: "get_optimal_dimensions (ImageSize 9 10) = (576, 576)"
    using get_optimal_dimensions_closest [of 9 10] by (simp add: Let_def)
  from a b c show ?thesis by simp
qed

section \<open>Properties of job submission\<close>

lemma retry_loop_last:
  "retry_loop env 2 d slept =
     (case env 2 of
        Response code pid \<Rightarrow>
          if code = 200 then \<lparr>returned = pid, attempts = 3, sleeps = slept\<rparr>
          else \<lparr>returned = None, attempts = 3, sleeps = slept\<rparr>
      | _ \<Rightarrow> \<lparr>returned = None, attempts = 3, sleeps = slept\<rparr>)"
  by (subst retry_loop.simps) (simp add: max_retries_def split: post_outcome.splits)

lemma retry_loop_second:
  "retry_loop env (Suc 0) d slept =
     (case env (Suc 0) of
        Response code pid \<Rightarrow>
          if code = 200 then \<lparr>returned = pid, attempts = 2, sleeps = slept\<rparr>
          else retry_loop env 2 (d * 2) (slept @ [d])
      | RequestException \<Rightarrow> retry_loop env 2 (d * 2) (slept @ [d])
      | OtherException \<Rightarrow> \<lparr>returned = None, attempts = 2, sleeps = slept\<rparr>)"
  by (subst retry_loop.simps)
     (simp add: max_retries_def numeral_2_eq_2 split: post_outcome.splits)

lemma retry_loop_first:
  "retry_loop env 0 d slept =
     (case env 0 of
        Response code pid \<Rightarrow>
          if code = 200 then \<lparr>returned = pid, attempts = 1, sleeps = slept\<rparr>
          else retry_loop env (Suc 0) (d * 2) (slept @ [d])
      | RequestException \<Rightarrow> retry_loop env (Suc 0) (d * 2) (slept @ [d])
      | OtherException \<Rightarrow> \<lparr>returned = None, attempts = 1, sleeps = slept\<rparr>)"
  by (subst retry_loop.simps) (simp add: max_retries_def split: post_outcome.splits)

lemmas retry_loop_unfold = retry_loop_first retry_loop_second retry_loop_last

lemma take_124:
  "take (Suc 0) [1, 2, 4 :: nat] = [1]"
  "take 2 [1, 2, 4 :: nat] = [1, 2]"
  "take 3 [1, 2, 4 :: nat] = [1, 2, 4]"
  by (simp_all add: numeral_2_eq_2 numeral_3_eq_3)

lemma all_less_2: "(\<forall>j < 2. P j) \<longleftrightarrow> P 0 \<and> P (Suc 0)" for P :: "nat \<Rightarrow> bool"
  by (auto simp: numeral_2_eq_2 less_Suc_eq)

lemma all_less_3: "(\<forall>j < 3. P j) \<longleftrightarrow> P 0 \<and> P (Suc 0) \<and> P 2" for P :: "nat \<Rightarrow> bool"
  by (auto simp: numeral_3_eq_3 numeral_2_eq_2 less_Suc_eq)

lemma less_3_cases: "i < 3 \<Longrightarrow> i = 0 \<or> i = Suc 0 \<or> i = (2 :: nat)"
  by auto

lemma queue_workflow_bound:
  "attempts (queue_workflow False env) \<le> 3
   \<and> sleeps (queue_workflow False env) = take (attempts (queue_workflow False env)) [1, 2, 4]"
  by (simp add: queue_workflow_def retry_loop_unfold take_124 split: post_outcome.splits)

lemma queue_workflow_success:
  assumes i: "i < 3" and tr: "\<forall>j < i. transient (env j)"
    and ok: "env i = Response 200 pid"
  shows "returned (queue_workflow False env) = pid
         \<and> attempts (queue_workflow False env) = i + 1"
proof -
  from less_3_cases [OF i] show ?thesis
  proof (elim disjE)
    assume "i = 0"
    with ok show ?thesis
      by (simp add: queue_workflow_def retry_loop_first)
  next
    assume i1: "i = Suc 0"
    with tr have "transient (env 0)" by simp
    with ok i1 show ?thesis
      by (cases "env 0") (simp_all add: queue_workflow_def retry_loop_unfold)
  next
    assume i2: "i = 2"
    with tr have "transient (env 0)" "transient (env (Suc 0))"
      by (simp_all add: all_less_2)
    with ok i2 show ?thesis
      by (cases "env 0"; cases "env (Suc 0)")
         (simp_all add: queue_workflow_def retry_loop_unfold)
  qed
qed

lemma queue_workflow_exhausted:
  assumes "\<forall>j < 3. transient (env j)"
  shows "returned (queue_workflow False env) = None
         \<and> attempts (queue_workflow False env) = 3
         \<and> sleeps (queue_workflow False env) = [1, 2, 4]"
proof -
  from assms have "transient (env 0)" "transient (env (Suc 0))" "transient (env 2)"
    by (simp_all add: all_less_3)
  then show ?thesis
    by (cases "env 0"; cases "env (Suc 0)"; cases "env 2")
       (simp_all add: queue_workflow_def retry_loop_unfold)
qed

text \<open>
  C5. Whatever the attempts meet, at most 3 POST attempts are made and the sleeps are an
  initial part of 1, 2, 4 seconds (one before each attempt, doubling). If the attempts
  before attempt \<open>i\<close> are transient failures and attempt \<open>i\<close> is answered with 200, the
  job id of that answer is returned after exactly \<open>i + 1\<close> attempts. If all three
  attempts are transient failures, the result is \<open>None\<close> after exactly 3 attempts and the
  sleeps 1, 2, 4: no further retry.
\<close>

theorem queue_workflow_bounded_backoff:
  "attempts (queue_workflow False env) \<le> 3
   \<and> sleeps (queue_workflow False env) = take (attempts (queue_workflow False env)) [1, 2, 4]
   \<and> (i < 3 \<and> (\<forall>j < i. transient (env j)) \<and> env i = Response 200 pid \<longrightarrow>
        returned (queue_workflow False env) = pid
        \<and> attempts (queue_workflow False env) = i + 1)
   \<and> ((\<forall>j < 3. transient (env j)) \<longrightarrow>
        returned (queue_workflow False env) = None
        \<and> attempts (queue_workflow False env) = 3
        \<and> sleeps (queue_workflow False env) = [1, 2, 4])"
  using queue_workflow_bound [of env] queue_workflow_success [of i env pid]
    queue_workflow_exhausted [of env]
  by blast

theorem queue_workflow_bounded_backoff_witness:
  "returned (queue_workflow False
      (\<lambda>k. if k < 2 then Response 503 None else Response 200 (Some ''job-7''))) = Some ''job-7''
   \<and> attempts (queue_workflow False
      (\<lambda>k. if k < 2 then Response 503 None else Response 200 (Some ''job-7''))) = 3
   \<and> sleeps (queue_workflow False
      (\<lambda>k. if k < 2 then Response 503 None else Response 200 (Some ''job-7''))) = [1, 2, 4]
   \<and> returned (queue_workflow False (\<lambda>k. Response 503 None)) = None
   \<and> attempts (queue_workflow False (\<lambda>k. Response 503 None)) = 3"
proof -
  have a: "returned (queue_workflow False
      (\<lambda>k. if k < 2 then Response 503 None else Response 200 (Some ''job-7''))) = Some ''job-7''
   \<and> attempts (queue_workflow False
      (\<lambda>k. if k < 2 then Response 503 None else Response 200 (Some ''job-7''))) = 3
   \<and> sleeps (queue_workflow False
      (\<lambda>k. if k < 2 then Response 503 None else Response 200 (Some ''job-7''))) = [1, 2, 4]"
    using queue_workflow_bounded_backoff
      [of "\<lambda>k. if k < 2 then Response 503 None else Response 200 (Some ''job-7'')" 2 "Some ''job-7''"]
    by (simp add: take_124)
  have b: "returned (queue_workflow False (\<lambda>k. Response 503 None)) = None
   \<and> attempts (queue_workflow False (\<lambda>k. Response 503 None)) = 3"
    using queue_workflow_bounded_backoff [of "\<lambda>k. Response 503 None" 0 None]
    by simp
  from a b show ?thesis by simp
qed

section \<open>Properties of the artifact download\<close>









section \<open>Properties of completion tracking\<close>

subsection \<open>What each part of the loop body leaves unchanged\<close>

lemma emit_fields [simp]:
  "now (emit p m s) = now s"
  "check_interval (emit p m s) = check_interval s"
  "last_update_time (emit p m s) = last_update_time s"
  "consecutive_not_in_queue (emit p m s) = consecutive_not_in_queue s"
  "prompt_left_queue (emit p m s) = prompt_left_queue s"
  "queue_polls (emit p m s) = queue_polls s"
  by (simp_all add: emit_def)

lemma elapse_fields [simp]:
  "now (elapse d s) = now s + d"
  "check_interval (elapse d s) = check_interval s"
  "consecutive_not_in_queue (elapse d s) = consecutive_not_in_queue s"
  "prompt_left_queue (elapse d s) = prompt_left_queue s"
  "queue_polls (elapse d s) = queue_polls s"
  by (simp_all add: elapse_def)

lemma progress_summary_fields [simp]:
  "now (progress_summary p outputs s) = now s"
  "check_interval (progress_summary p outputs s) = check_interval s"
  "consecutive_not_in_queue (progress_summary p outputs s) = consecutive_not_in_queue s"
  "prompt_left_queue (progress_summary p outputs s) = prompt_left_queue s"
  "queue_polls (progress_summary p outputs s) = queue_polls s"
  by (simp_all add: progress_summary_def Let_def split: list.splits)

lemma queue_running_branch_fields [simp]:
  "now (queue_running_branch p t info s) = now s"
  "check_interval (queue_running_branch p t info s) = check_interval s"
  "consecutive_not_in_queue (queue_running_branch p t info s) = consecutive_not_in_queue s"
  "prompt_left_queue (queue_running_branch p t info s) = prompt_left_queue s"
  "queue_polls (queue_running_branch p t info s) = queue_polls s"
  by (simp_all add: queue_running_branch_def Let_def split: node_field.splits)

lemma report_executing_fields [simp]:
  "now (report_executing p t n s) = now s"
  "check_interval (report_executing p t n s) = check_interval s"
  "consecutive_not_in_queue (report_executing p t n s) = consecutive_not_in_queue s"
  "prompt_left_queue (report_executing p t n s) = prompt_left_queue s"
  "queue_polls (report_executing p t n s) = queue_polls s"
  by (simp_all add: report_executing_def Let_def split: option.splits)

lemma report_all_fields [simp]:
  "now (foldl (\<lambda>st node_id. report_executing p t node_id st) s ns) = now s"
  "check_interval (foldl (\<lambda>st node_id. report_executing p t node_id st) s ns) = check_interval s"
  "consecutive_not_in_queue (foldl (\<lambda>st node_id. report_executing p t node_id st) s ns)
     = consecutive_not_in_queue s"
  "prompt_left_queue (foldl (\<lambda>st node_id. report_executing p t node_id st) s ns)
     = prompt_left_queue s"
  "queue_polls (foldl (\<lambda>st node_id. report_executing p t node_id st) s ns) = queue_polls s"
  by (induction ns arbitrary: s; simp)+

lemma time_based_progress_fields [simp]:
  "now (time_based_progress p t s) = now s"
  "check_interval (time_based_progress p t s) = check_interval s"
  "consecutive_not_in_queue (time_based_progress p t s) = consecutive_not_in_queue s"
  "prompt_left_queue (time_based_progress p t s) = prompt_left_queue s"
  "queue_polls (time_based_progress p t s) = queue_polls s"
  by (simp_all add: time_based_progress_def Let_def)

lemma adaptive_wait_fields [simp]:
  "now (adaptive_wait s) = now s + min 8 (check_interval s * 1.05)"
  "check_interval (adaptive_wait s) = min 8 (check_interval s * 1.05)"
  "consecutive_not_in_queue (adaptive_wait s) = consecutive_not_in_queue s"
  "prompt_left_queue (adaptive_wait s) = prompt_left_queue s"
  "queue_polls (adaptive_wait s) = queue_polls s"
  by (simp_all add: adaptive_wait_def Let_def)

lemma not_in_queue_branch_fields [simp]:
  "now (not_in_queue_branch p outputs executing s) = now s"
  "check_interval (not_in_queue_branch p outputs executing s) = check_interval s"
  "queue_polls (not_in_queue_branch p outputs executing s) = queue_polls s"
  "consecutive_not_in_queue (not_in_queue_branch p outputs executing s)
     = (if executing \<noteq> [] then 0 else consecutive_not_in_queue s + 1)"
  by (simp_all add: not_in_queue_branch_def Let_def)

subsection \<open>The queue-exit invariant\<close>

lemma after_queue_check_view:
  "exit_view (state_of (after_queue_check p t outputs executing error_msg s)) = exit_view s"
  by (simp add: after_queue_check_def error_check_def track_executed_def exit_view_def Let_def
           split: option.splits)

lemma exit_inv_view: "exit_view s' = exit_view s \<Longrightarrow> exit_inv s' = exit_inv s"
  by (simp add: exit_inv_def exit_view_def)

lemma in_queue_branch_view:
  "exit_view (state_of (in_queue_branch p t info s)) = (0, prompt_left_queue s, queue_polls s)"
  by (simp add: in_queue_branch_def exit_view_def Let_def split: option.splits)

lemma not_in_queue_branch_left:
  "prompt_left_queue (not_in_queue_branch p outputs executing s) \<Longrightarrow>
     prompt_left_queue s
     \<or> required_not_in_queue \<le> consecutive_not_in_queue (not_in_queue_branch p outputs executing s)"
  by (simp add: not_in_queue_branch_def Let_def split: if_splits)

text \<open>
  When the queue is polled, the state after the request: the time of the check is stored,
  the outcome is recorded and the clock has advanced.
\<close>

lemma queue_check_polled:
  assumes "\<not> prompt_left_queue s" "now s - last_queue_check_time s > queue_check_interval"
    and "get_queue_status (prompt_id p) (queue obs) = Some info"
  shows "queue_check p obs t outputs executing s =
     (if is_in_queue info
      then in_queue_branch p t info
        (elapse (queue_delay obs)
          (s\<lparr>last_queue_check_time := now s,
             queue_polls := (is_in_queue info, executing \<noteq> []) # queue_polls s\<rparr>))
      else Proceed (not_in_queue_branch p outputs executing
        (elapse (queue_delay obs)
          (s\<lparr>last_queue_check_time := now s,
             queue_polls := (is_in_queue info, executing \<noteq> []) # queue_polls s\<rparr>))))"
  using assms by (simp add: queue_check_def Let_def)

lemma queue_check_inv:
  assumes inv: "exit_inv s"
  shows "exit_inv (state_of (queue_check p obs t outputs executing s))"
proof (cases "\<not> prompt_left_queue s \<and> now s - last_queue_check_time s > queue_check_interval")
  case False
  with inv show ?thesis
    by (auto simp: queue_check_def)
next
  case True
  show ?thesis
  proof (cases "get_queue_status (prompt_id p) (queue obs)")
    case None
    with True inv show ?thesis
      by (simp add: queue_check_def exit_inv_def)
  next
    case (Some info)
    define s1 where "s1 = elapse (queue_delay obs)
        (s\<lparr>last_queue_check_time := now s,
           queue_polls := (is_in_queue info, executing \<noteq> []) # queue_polls s\<rparr>)"
    have s1: "queue_polls s1 = (is_in_queue info, executing \<noteq> []) # queue_polls s"
      "consecutive_not_in_queue s1 = consecutive_not_in_queue s"
      "\<not> prompt_left_queue s1"
      using True by (simp_all add: s1_def)
    have q: "queue_check p obs t outputs executing s =
        (if is_in_queue info then in_queue_branch p t info s1
         else Proceed (not_in_queue_branch p outputs executing s1))"
      using True Some queue_check_polled [of s p obs info t outputs executing]
      by (simp add: s1_def)
    show ?thesis
    proof (cases "is_in_queue info")
      case True
      with q in_queue_branch_view [of p t info s1] s1 show ?thesis
        by (simp add: exit_inv_def exit_view_def quiet_streak_def)
    next
      case False
      with q not_in_queue_branch_left [of p outputs executing s1] s1 inv show ?thesis
        by (auto simp: exit_inv_def quiet_streak_def)
    qed
  qed
qed

lemma loop_body_inv:
  assumes inv: "exit_inv s"
  shows "exit_inv (state_of (loop_body p obs s))"
proof -
  have view1: "exit_view (progress_summary p outputs (elapse d s)) = exit_view s" for outputs d
    by (simp add: exit_view_def)
  have inv1: "exit_inv (progress_summary p outputs (elapse d s))" for outputs d
    using inv exit_inv_view [OF view1] by simp
  have step: "exit_inv (state_of
       (case queue_check p obs t outputs executing (progress_summary p outputs (elapse d s)) of
          Proceed s2 \<Rightarrow> after_queue_check p t outputs executing error_msg s2
        | other \<Rightarrow> other))" for t outputs executing error_msg d
  proof (cases "queue_check p obs t outputs executing (progress_summary p outputs (elapse d s))")
    case (Proceed s2)
    with queue_check_inv [OF inv1, of p obs t outputs executing outputs d]
    have "exit_inv s2" by simp
    with Proceed show ?thesis
      using exit_inv_view [OF after_queue_check_view] by simp
  next
    case (NextPoll s2)
    with queue_check_inv [OF inv1, of p obs t outputs executing outputs d]
    show ?thesis by simp
  next
    case (Stop e s2)
    with queue_check_inv [OF inv1, of p obs t outputs executing outputs d]
    show ?thesis by simp
  qed
  have stop1: "exit_inv (emit p m (elapse d s))" for m d
    using inv by (simp add: exit_inv_def)
  show ?thesis
    unfolding loop_body_def Let_def
    using inv stop1 step
    by (simp split: prod.splits)
qed

lemma polls_inv: "exit_inv s \<Longrightarrow> exit_inv (state_of (polls n p env k s))"
proof (induction n arbitrary: k s)
  case 0
  then show ?case by simp
next
  case (Suc n)
  from loop_body_inv [OF Suc.prems, of p "env k"] Suc.IH [of _ "Suc k"]
  show ?case
    by (cases "loop_body p (env k) s") simp_all
qed

lemma initial_inv: "exit_inv (initial_state p)"
  by (simp add: exit_inv_def initial_state_def quiet_streak_def)

lemma streak_take:
  assumes "5 \<le> quiet_streak recent"
  shows "take 5 recent = replicate 5 (False, False)"
proof -
  let ?quiet = "takeWhile (\<lambda>q. q = (False, False)) recent"
  have all_quiet: "?quiet = replicate (length ?quiet) (False, False)"
    by (rule replicate_length_same [symmetric]) (auto dest: set_takeWhileD)
  have "take 5 recent = take 5 (?quiet @ dropWhile (\<lambda>q. q = (False, False)) recent)"
    by simp
  also have "\<dots> = take 5 ?quiet"
    using assms by (simp add: quiet_streak_def del: takeWhile_dropWhile_id)
  also have "\<dots> = take 5 (replicate (length ?quiet) (False, False))"
    using all_quiet by simp
  also have "\<dots> = replicate 5 (False, False)"
    using assms by (simp add: quiet_streak_def min_def)
  finally show ?thesis .
qed

text \<open>
  C4. After any number of polls, whatever was observed: the counter
  \<open>consecutive_not_in_queue\<close> equals the number of most recent consecutive queue polls in
  which the job was in neither queue and nothing was executing (so it is back at zero as
  soon as the job is found in a queue or a node is executing), and \<open>prompt_left_queue\<close>
  is set only when the 5 most recent queue polls were all of that kind.
\<close>

theorem queue_exit_needs_five_quiet_polls:
  "consecutive_not_in_queue (state_of (polls n p env 0 (initial_state p)))
     = quiet_streak (queue_polls (state_of (polls n p env 0 (initial_state p))))
   \<and> (prompt_left_queue (state_of (polls n p env 0 (initial_state p))) \<longrightarrow>
        5 \<le> quiet_streak (queue_polls (state_of (polls n p env 0 (initial_state p))))
        \<and> take 5 (queue_polls (state_of (polls n p env 0 (initial_state p))))
            = replicate 5 (False, False))"
  using polls_inv [OF initial_inv, of n p env 0] streak_take
  by (simp add: exit_inv_def required_not_in_queue_def)

theorem queue_exit_needs_five_quiet_polls_witness:
  "prompt_left_queue
     (state_of (polls 6 sample_params queued_then_gone 0 (initial_state sample_params)))
   \<and> take 5 (queue_polls
       (state_of (polls 6 sample_params queued_then_gone 0 (initial_state sample_params))))
     = replicate 5 (False, False)
   \<and> \<not> prompt_left_queue
     (state_of (polls 5 sample_params queued_then_gone 0 (initial_state sample_params)))"
proof -
  have left: "prompt_left_queue
     (state_of (polls 6 sample_params queued_then_gone 0 (initial_state sample_params)))"
    by code_simp
  have not_yet: "\<not> prompt_left_queue
     (state_of (polls 5 sample_params queued_then_gone 0 (initial_state sample_params)))"
    by code_simp
  from left not_yet queue_exit_needs_five_quiet_polls [of 6 sample_params queued_then_gone]
  show ?thesis
    by blast
qed

subsection \<open>Termination\<close>


















text \<open>
  C1 fails on the code. When the history answers 200 with a body that has a top-level
  \<open>error\<close> entry, \<open>check_workflow_status\<close> returns \<open>is_complete = True\<close> together
  with the error text, and the tracker passes \<open>100% - Complete\<close> to the callback and
  returns \<open>True\<close> at the first poll, although node 30 has no output and no status says
  completed.
\<close>

theorem wait_reports_complete_on_history_error:
  "check_workflow_status (HistoryResponse 200 error_body) = (True, Some error_body, Some ''boom'')
   \<and> map_option fst (wait_for_workflow_completion 1 sample_params history_error)
       = Some (Returned True LogCompleted)
   \<and> map_option (callbacks \<circ> snd) (wait_for_workflow_completion 1 sample_params history_error)
       = Some [Complete100]"
proof -
  have a: "check_workflow_status (HistoryResponse 200 error_body)
      = (True, Some error_body, Some ''boom'')"
    by (simp add: check_workflow_status_def check_prompt_data_def error_body_def)
  have b: "map_option fst (wait_for_workflow_completion 1 sample_params history_error)
       = Some (Returned True LogCompleted)"
    by code_simp
  have c: "map_option (callbacks \<circ> snd)
       (wait_for_workflow_completion 1 sample_params history_error) = Some [Complete100]"
    by code_simp
  from a b c show ?thesis
    by simp
qed

section \<open>Properties of the graph copy and the compiler\<close>

subsection \<open>Heaps\<close>

lemma preserved_refl [simp]: "preserved h h"
  by (simp add: preserved_def)

lemma preserved_length: "preserved h h' \<Longrightarrow> length h \<le> length h'"
  by (simp add: preserved_def)

lemma preserved_trans:
  assumes "preserved h1 h2" "preserved h2 h3"
  shows "preserved h1 h3"
proof -
  from assms have len: "length h1 \<le> length h2" "length h2 \<le> length h3"
    and t: "take (length h1) h2 = h1" "take (length h2) h3 = h2"
    by (simp_all add: preserved_def)
  have "take (length h1) h3 = take (length h1) (take (length h2) h3)"
    using len by (simp add: min_def)
  with t show ?thesis
    using len by (simp add: preserved_def)
qed

lemma preserved_append: "preserved h (h @ [obj])"
  by (simp add: preserved_def)

lemma preserved_update: "preserved h0 h \<Longrightarrow> length h0 \<le> a \<Longrightarrow> preserved h0 (h[a := obj])"
  by (simp add: preserved_def)

lemma fresh_scalar [simp]:
  "fresh n h VNone" "fresh n h (VBool b)" "fresh n h (VInt i)" "fresh n h (VFloat x)"
  "fresh n h (VStr s)"
  by (simp_all add: fresh_def)

lemma fresh_ref [simp]: "fresh n h (VRef a) \<longleftrightarrow> n \<le> a \<and> a < length h"
  by (simp add: fresh_def)

lemma fresh_mono: "fresh n h v \<Longrightarrow> length h \<le> length h' \<Longrightarrow> fresh n h' v"
  by (auto simp: fresh_def)

lemma closed_fromD:
  "closed_from n h \<Longrightarrow> n \<le> a \<Longrightarrow> a < length h \<Longrightarrow> r \<in> obj_refs (h ! a) \<Longrightarrow> n \<le> r \<and> r < length h"
  unfolding closed_from_def by blast

lemma closed_fromI:
  "(\<And>a r. n \<le> a \<Longrightarrow> a < length h \<Longrightarrow> r \<in> obj_refs (h ! a) \<Longrightarrow> n \<le> r \<and> r < length h)
   \<Longrightarrow> closed_from n h"
  unfolding closed_from_def by blast

lemma closed_from_append:
  assumes c: "closed_from n h" and r: "\<And>r. r \<in> obj_refs obj \<Longrightarrow> n \<le> r \<and> r < length h"
  shows "closed_from n (h @ [obj])"
proof (rule closed_fromI)
  fix a r
  assume a: "n \<le> a" "a < length (h @ [obj])" and r': "r \<in> obj_refs ((h @ [obj]) ! a)"
  show "n \<le> r \<and> r < length (h @ [obj])"
  proof (cases "a < length h")
    case True
    with r' have "r \<in> obj_refs (h ! a)" by (simp add: nth_append)
    from closed_fromD [OF c a(1) True this] show ?thesis by simp
  next
    case False
    with a have "a = length h" by simp
    with r' have "r \<in> obj_refs obj" by simp
    from r [OF this] show ?thesis by simp
  qed
qed

lemma closed_from_update:
  assumes c: "closed_from n h" and r: "\<And>r. r \<in> obj_refs obj \<Longrightarrow> n \<le> r \<and> r < length h"
  shows "closed_from n (h[b := obj])"
proof (rule closed_fromI)
  fix a r
  assume a: "n \<le> a" "a < length (h[b := obj])" and r': "r \<in> obj_refs (h[b := obj] ! a)"
  show "n \<le> r \<and> r < length (h[b := obj])"
  proof (cases "a = b")
    case True
    with a r' have "r \<in> obj_refs obj" by simp
    from r [OF this] show ?thesis by simp
  next
    case False
    with a r' have "r \<in> obj_refs (h ! a)" "a < length h" by simp_all
    from closed_fromD [OF c a(1) this(2) this(1)] show ?thesis by simp
  qed
qed

lemma assoc_set_member:
  "x \<in> set (assoc_set kvs k v) \<Longrightarrow> x = (k, v) \<or> x \<in> set kvs"
  by (induction kvs) (auto split: if_splits)

lemma foldl_assoc_set_member:
  "x \<in> set (foldl (\<lambda>acc kv. assoc_set acc (fst kv) (snd kv)) acc kvs)
     \<Longrightarrow> x \<in> set acc \<or> x \<in> set kvs"
proof (induction kvs arbitrary: acc)
  case Nil
  then show ?case by simp
next
  case (Cons kv kvs)
  from Cons.IH [of "assoc_set acc (fst kv) (snd kv)"] Cons.prems
  have "x \<in> set (assoc_set acc (fst kv) (snd kv)) \<or> x \<in> set kvs"
    by simp
  then show ?case
  proof
    assume "x \<in> set (assoc_set acc (fst kv) (snd kv))"
    from assoc_set_member [OF this] show ?thesis
      by (cases kv) auto
  next
    assume "x \<in> set kvs"
    then show ?thesis by simp
  qed
qed

subsection \<open>The copy made by json.loads is new\<close>

lemma loads_fresh:
  "n \<le> length h \<Longrightarrow> closed_from n h \<Longrightarrow>
     preserved h (snd (loads j h)) \<and> closed_from n (snd (loads j h))
     \<and> fresh n (snd (loads j h)) (fst (loads j h))"
  "n \<le> length h \<Longrightarrow> closed_from n h \<Longrightarrow>
     preserved h (snd (loads_list js h)) \<and> closed_from n (snd (loads_list js h))
     \<and> (\<forall>v \<in> set (fst (loads_list js h)). fresh n (snd (loads_list js h)) v)"
  "n \<le> length h \<Longrightarrow> closed_from n h \<Longrightarrow>
     preserved h (snd (loads_fields fs h)) \<and> closed_from n (snd (loads_fields fs h))
     \<and> (\<forall>kv \<in> set (fst (loads_fields fs h)). fresh n (snd (loads_fields fs h)) (snd kv))"
proof (induction j h and js h and fs h rule: loads_loads_list_loads_fields.induct)
  case (6 js h)
  obtain vs h1 where l: "loads_list js h = (vs, h1)" by (cases "loads_list js h")
  from 6(1) [OF 6(2,3)] l
  have h1: "preserved h h1" "closed_from n h1" "\<forall>v \<in> set vs. fresh n h1 v"
    by simp_all
  have len: "n \<le> length h1"
    using 6(2) preserved_length [OF h1(1)] by simp
  have "closed_from n (h1 @ [OList vs])"
    using h1(3) by (intro closed_from_append [OF h1(2)]) (auto simp: fresh_def)
  moreover have "preserved h (h1 @ [OList vs])"
    using preserved_trans [OF h1(1) preserved_append] .
  ultimately show ?case
    using l len by (simp add: alloc_def)
next
  case (7 fs h)
  obtain kvs h1 where l: "loads_fields fs h = (kvs, h1)" by (cases "loads_fields fs h")
  from 7(1) [OF 7(2,3)] l
  have h1: "preserved h h1" "closed_from n h1" "\<forall>kv \<in> set kvs. fresh n h1 (snd kv)"
    by simp_all
  have len: "n \<le> length h1"
    using 7(2) preserved_length [OF h1(1)] by simp
  let ?d = "foldl (\<lambda>acc kv. assoc_set acc (fst kv) (snd kv)) [] kvs"
  have "\<forall>kv \<in> set ?d. fresh n h1 (snd kv)"
    using foldl_assoc_set_member [of _ "[]" kvs] h1(3) by auto
  then have "closed_from n (h1 @ [ODict ?d])"
    by (intro closed_from_append [OF h1(2)]) (auto simp: fresh_def)
  moreover have "preserved h (h1 @ [ODict ?d])"
    using preserved_trans [OF h1(1) preserved_append] .
  ultimately show ?case
    using l len by (simp add: alloc_def)
next
  case (9 j js h)
  obtain v h1 where a: "loads j h = (v, h1)" by (cases "loads j h")
  obtain vs h2 where b: "loads_list js h1 = (vs, h2)" by (cases "loads_list js h1")
  from 9(1) [OF 9(3,4)] a have h1: "preserved h h1" "closed_from n h1" "fresh n h1 v"
    by simp_all
  have len: "n \<le> length h1"
    using 9(3) preserved_length [OF h1(1)] by simp
  from 9(2) [OF a [symmetric] len h1(2)] a b
  have h2: "preserved h1 h2" "closed_from n h2" "\<forall>v \<in> set vs. fresh n h2 v"
    by simp_all
  have "fresh n h2 v"
    using fresh_mono [OF h1(3) preserved_length [OF h2(1)]] .
  with h2 preserved_trans [OF h1(1) h2(1)] a b show ?case
    by simp
next
  case (11 f fs h)
  obtain v h1 where a: "loads (snd f) h = (v, h1)" by (cases "loads (snd f) h")
  obtain kvs h2 where b: "loads_fields fs h1 = (kvs, h2)" by (cases "loads_fields fs h1")
  from 11(1) [OF 11(3,4)] a have h1: "preserved h h1" "closed_from n h1" "fresh n h1 v"
    by simp_all
  have len: "n \<le> length h1"
    using 11(3) preserved_length [OF h1(1)] by simp
  from 11(2) [OF a [symmetric] len h1(2)] a b
  have h2: "preserved h1 h2" "closed_from n h2" "\<forall>kv \<in> set kvs. fresh n h2 (snd kv)"
    by simp_all
  have "fresh n h2 v"
    using fresh_mono [OF h1(3) preserved_length [OF h2(1)]] .
  with h2 preserved_trans [OF h1(1) h2(1)] a b show ?case
    by simp
qed simp_all

subsection \<open>The injector writes into the copy only\<close>

lemma kept_refl: "closed_from n h \<Longrightarrow> kept n h h"
  by (simp add: kept_def)

lemma kept_trans: "kept n h h1 \<Longrightarrow> kept n h1 h2 \<Longrightarrow> kept n h h2"
  by (simp add: kept_def)

lemma position_less: "position n i = Some j \<Longrightarrow> j < n"
  by (auto simp: position_def split: if_splits)

lemma seq_index_member: "seq_index xs i = Returns x \<Longrightarrow> x \<in> set xs"
  by (auto simp: seq_index_def dest: position_less split: option.splits)

lemma subscript_fresh:
  assumes c: "closed_from n h" and v: "fresh n h v" and s: "subscript h v k = Returns w"
  shows "fresh n h w"
proof (cases v)
  case (VRef a)
  with v have a: "n \<le> a" "a < length h" by simp_all
  have "val_refs w \<subseteq> obj_refs (h ! a)"
  proof (cases "h ! a")
    case (ODict kvs)
    with s VRef a obtain x where "map_of kvs k = Some w"
      by (auto simp: subscript_def object_at_def split: option.splits)
    then have "(k, w) \<in> set kvs" by (rule map_of_SomeD)
    with ODict show ?thesis by force
  next
    case (OList xs)
    with s VRef a obtain i where "seq_index xs i = Returns w"
      by (auto simp: subscript_def object_at_def split: key.splits)
    then have "w \<in> set xs" by (rule seq_index_member)
    with OList show ?thesis by auto
  qed
  then show ?thesis
    using closed_fromD [OF c a] by (auto simp: fresh_def)
next
  case (VStr t)
  with s show ?thesis
    by (auto simp: subscript_def bind_def split: key.splits result.splits)
qed (use s in \<open>simp_all add: subscript_def\<close>)

lemma elements_fresh:
  assumes c: "closed_from n h" and v: "fresh n h v" and e: "elements h v = Returns ns"
  shows "\<forall>x \<in> set ns. fresh n h x"
proof (cases v)
  case (VRef a)
  with v have a: "n \<le> a" "a < length h" by simp_all
  show ?thesis
  proof (cases "h ! a")
    case (ODict kvs)
    with e VRef a have "ns = map (\<lambda>kv. case fst kv of KStr s \<Rightarrow> VStr s | KInt i \<Rightarrow> VInt i) kvs"
      by (simp add: elements_def object_at_def)
    then show ?thesis
      by (auto split: key.splits)
  next
    case (OList xs)
    with e VRef a have "ns = xs"
      by (simp add: elements_def object_at_def)
    with OList closed_fromD [OF c a] show ?thesis
      by (auto simp: fresh_def)
  qed
next
  case (VStr t)
  with e show ?thesis
    by (auto simp: elements_def)
qed (use e in \<open>simp_all add: elements_def\<close>)

lemma item_values_fresh:
  assumes c: "closed_from n h" and v: "fresh n h v" and e: "item_values h v = Returns ns"
  shows "\<forall>x \<in> set ns. fresh n h x"
proof (cases v)
  case (VRef a)
  with v have a: "n \<le> a" "a < length h" by simp_all
  show ?thesis
  proof (cases "h ! a")
    case (ODict kvs)
    with e VRef a have "ns = map snd kvs"
      by (simp add: item_values_def object_at_def)
    with ODict closed_fromD [OF c a] show ?thesis
      by (auto simp: fresh_def)
  next
    case (OList xs)
    with e VRef a show ?thesis
      by (simp add: item_values_def object_at_def)
  qed
qed (use e in \<open>simp_all add: item_values_def\<close>)

lemma set_item_kept:
  assumes c: "closed_from n h" and w: "fresh n h w" and v: "fresh n h v"
  shows "kept n h (snd (set_item h w k v))"
proof (cases w)
  case (VRef a)
  with w have a: "n \<le> a" "a < length h" by simp_all
  show ?thesis
  proof (cases "h ! a")
    case (ODict kvs)
    have "closed_from n (h[a := ODict (assoc_set kvs k v)])"
    proof (rule closed_from_update [OF c])
      fix r assume "r \<in> obj_refs (ODict (assoc_set kvs k v))"
      then obtain kv where kv: "kv \<in> set (assoc_set kvs k v)" "r \<in> val_refs (snd kv)"
        by auto
      from assoc_set_member [OF kv(1)] show "n \<le> r \<and> r < length h"
      proof
        assume "kv = (k, v)"
        with kv(2) v show ?thesis by (auto simp: fresh_def)
      next
        assume "kv \<in> set kvs"
        with kv(2) ODict have "r \<in> obj_refs (h ! a)" by auto
        from closed_fromD [OF c a this] show ?thesis .
      qed
    qed
    with VRef ODict a show ?thesis
      by (simp add: set_item_def object_at_def kept_def)
  next
    case (OList xs)
    have upd: "closed_from n (h[a := OList (xs[j := v])])" for j
    proof (rule closed_from_update [OF c])
      fix r assume "r \<in> obj_refs (OList (xs[j := v]))"
      then obtain x where x: "x \<in> set (xs[j := v])" "r \<in> val_refs x"
        by auto
      from x(1) have "x = v \<or> x \<in> set xs"
        using set_update_subset_insert [of xs j v] by auto
      then show "n \<le> r \<and> r < length h"
      proof
        assume "x = v"
        with x(2) v show ?thesis by (auto simp: fresh_def)
      next
        assume "x \<in> set xs"
        with x(2) OList have "r \<in> obj_refs (h ! a)" by auto
        from closed_fromD [OF c a this] show ?thesis .
      qed
    qed
    with VRef OList a c show ?thesis
      by (simp add: set_item_def object_at_def kept_def split: key.splits option.splits)
  qed
qed (use c in \<open>simp_all add: set_item_def kept_def\<close>)

lemma bind_heap_kept:
  assumes "\<And>x. m = Returns x \<Longrightarrow> kept n h (snd (f x))" and "closed_from n h"
  shows "kept n h (snd (bind_heap m h f))"
  using assms by (cases m) (simp_all add: bind_heap_def kept_refl)

lemma if_kept:
  assumes "b \<Longrightarrow> kept n h (snd x)" and "\<not> b \<Longrightarrow> kept n h (snd y)"
  shows "kept n h (snd (if b then x else y))"
  using assms by simp

lemma skip_kept: "closed_from n h \<Longrightarrow> kept n h (snd (Returns (), h))"
  by (simp add: kept_refl)

lemma update_node_kept:
  assumes c: "closed_from n h" and v: "fresh n h node"
  shows "kept n h (snd (update_node h node prompt))"
  unfolding update_node_def
proof (intro bind_heap_kept if_kept skip_kept c)
  fix widgets_values
  assume "subscript h node (KStr ''widgets_values'') = Returns widgets_values"
  from subscript_fresh [OF c v this]
  show "kept n h (snd (set_item h widgets_values (KInt 0) (VStr prompt)))"
    by (intro set_item_kept c) simp_all
qed

lemma update_nodes_kept:
  assumes c: "closed_from n h" and v: "\<forall>node \<in> set nodes. fresh n h node"
  shows "kept n h (snd (update_nodes h nodes prompt))"
  using assms
proof (induction nodes arbitrary: h)
  case Nil
  then show ?case by (simp add: kept_refl)
next
  case (Cons node nodes)
  obtain r h1 where u: "update_node h node prompt = (r, h1)"
    by (cases "update_node h node prompt")
  from update_node_kept [OF Cons.prems(1), of node prompt] Cons.prems(2) u
  have k1: "kept n h h1" by simp
  then have c1: "closed_from n h1" and len: "length h1 = length h"
    by (simp_all add: kept_def)
  from Cons.prems(2) len have "\<forall>node \<in> set nodes. fresh n h1 node"
    by (simp add: fresh_def)
  from Cons.IH [OF c1 this] have "kept n h1 (snd (update_nodes h1 nodes prompt))" .
  from kept_trans [OF k1 this] k1 u show ?case
    by (cases r) simp_all
qed

lemma inject_prompt_kept:
  assumes c: "closed_from n h" and v: "fresh n h updated_workflow"
  shows "kept n h (snd (inject_prompt h updated_workflow prompt))"
  unfolding inject_prompt_def
proof (intro bind_heap_kept if_kept skip_kept c)
  fix nodes ns
  assume nodes: "subscript h updated_workflow (KStr ''nodes'') = Returns nodes"
  have f: "fresh n h nodes"
    using subscript_fresh [OF c v nodes] .
  {
    assume "elements h nodes = Returns ns"
    from elements_fresh [OF c f this]
    show "kept n h (snd (update_nodes h ns prompt))"
      by (rule update_nodes_kept [OF c])
  next
    assume "item_values h nodes = Returns ns"
    from item_values_fresh [OF c f this]
    show "kept n h (snd (update_nodes h ns prompt))"
      by (rule update_nodes_kept [OF c])
  }
qed

lemma reachable_fresh:
  assumes c: "closed_from n h" and v: "fresh n h v" and a: "a \<in> reachable h v"
  shows "n \<le> a \<and> a < length h"
  using a
proof (induction rule: reachable.induct)
  case (root a)
  with v show ?case by (simp add: fresh_def)
next
  case (step a b)
  from closed_fromD [OF c _ step.hyps(2) step.hyps(3)] step.IH show ?case
    by simp
qed

lemma closed_from_length: "closed_from (length h) h"
  by (simp add: closed_from_def)

lemma update_workflow_frame:
  assumes u: "update_workflow h workflow prompt = (r, h')"
  shows "preserved h h'
     \<and> (\<forall>v. r = Returns v \<longrightarrow> (\<forall>a \<in> reachable h' v. length h \<le> a \<and> a < length h'))"
proof (cases "dumps h workflow")
  case (Returns dumped)
  obtain updated h1 where l: "loads dumped h = (updated, h1)"
    by (cases "loads dumped h")
  obtain r2 h2 where i: "inject_prompt h1 updated prompt = (r2, h2)"
    by (cases "inject_prompt h1 updated prompt")
  from loads_fresh(1) [OF le_refl closed_from_length, of h dumped] l
  have h1: "preserved h h1" "closed_from (length h) h1" "fresh (length h) h1 updated"
    by simp_all
  from inject_prompt_kept [OF h1(2,3), of prompt] i
  have k: "kept (length h) h1 h2" by simp
  then have h2: "length h2 = length h1" "take (length h) h2 = take (length h) h1"
    "closed_from (length h) h2"
    by (simp_all add: kept_def)
  from u Returns l i have h': "h' = h2" and r: "r = Returns v \<Longrightarrow> v = updated" for v
    by (auto simp: update_workflow_def bind_heap_def split: result.splits)
  have "preserved h h2"
    using h1(1) h2 by (simp add: preserved_def)
  moreover have "fresh (length h) h2 updated"
    using h1(3) h2(1) by (simp add: fresh_def)
  ultimately show ?thesis
    using h' r reachable_fresh [OF h2(3)] by blast
next
  case (Raises e)
  with u show ?thesis
    by (auto simp: update_workflow_def bind_heap_def)
next
  case Unsupported
  with u show ?thesis
    by (auto simp: update_workflow_def bind_heap_def)
qed

subsection \<open>The compiler writes into new objects only\<close>

lemma preserved_appends: "preserved h0 h \<Longrightarrow> preserved h0 (h @ xs)"
  by (simp add: preserved_def)

lemma bind_heap_preserved:
  assumes "\<And>x. m = Returns x \<Longrightarrow> preserved h0 (snd (f x))" and "preserved h0 h"
  shows "preserved h0 (snd (bind_heap m h f))"
  using assms by (cases m) (simp_all add: bind_heap_def)

lemma then_heap_preserved:
  assumes "preserved h0 (snd first)"
    and "\<And>h1. preserved h0 h1 \<Longrightarrow> preserved h0 (snd (rest h1))"
  shows "preserved h0 (snd (then_heap first rest))"
proof (cases first)
  case (Pair r h1)
  with assms show ?thesis
    by (cases r) (simp_all add: then_heap_def)
qed

lemma if_preserved:
  assumes "b \<Longrightarrow> preserved h0 (snd x)" and "\<not> b \<Longrightarrow> preserved h0 (snd y)"
  shows "preserved h0 (snd (if b then x else y))"
  using assms by simp

lemma pair_preserved: "preserved h0 h \<Longrightarrow> preserved h0 (snd (r, h))"
  by simp

lemma set_item_preserved:
  assumes "preserved h0 h" and "length h0 \<le> a"
  shows "preserved h0 (snd (set_item h (VRef a) k v))"
proof (cases "object_at h a")
  case None
  with assms show ?thesis by (simp add: set_item_def)
next
  case (Some obj)
  with assms show ?thesis
    by (cases obj; cases k)
       (simp_all add: set_item_def preserved_update split: option.splits)
qed

lemma dict_update_preserved:
  assumes "preserved h0 h" and "length h0 \<le> a"
  shows "preserved h0 (snd (dict_update h (VRef a) entries))"
proof (cases "object_at h a")
  case None
  with assms show ?thesis by (simp add: dict_update_def)
next
  case (Some obj)
  with assms show ?thesis
    by (cases obj) (simp_all add: dict_update_def preserved_update)
qed

lemma link_input_preserved:
  assumes p: "preserved h0 h" and a: "length h0 \<le> a"
  shows "preserved h0 (snd (link_input h workflow (VRef a) input_data))"
  unfolding link_input_def
proof (intro bind_heap_preserved if_preserved pair_preserved p)
  fix found :: "(pyval \<times> pyval) option"
  show "preserved h0 (snd (case found of
            None \<Rightarrow> (Returns (), h)
          | Some (source_node_id, output_index) \<Rightarrow>
              (case alloc h (OList [source_node_id, output_index]) of
                 (pair, h1) \<Rightarrow>
                   bind_heap (as_key input_name) h1 (\<lambda>k. set_item h1 (VRef a) k pair))))"
    for input_name
  proof (cases found)
    case None
    with p show ?thesis by simp
  next
    case (Some link)
    obtain s i where "link = (s, i)" by (cases link)
    with Some show ?thesis
      by (simp add: alloc_def)
         (intro bind_heap_preserved set_item_preserved preserved_appends p a)
  qed
qed

lemma link_inputs_preserved:
  assumes "preserved h0 h" and a: "length h0 \<le> a"
  shows "preserved h0 (snd (link_inputs h workflow (VRef a) input_list))"
  using assms(1)
proof (induction input_list arbitrary: h)
  case Nil
  then show ?case by simp
next
  case (Cons input_data rest)
  show ?case
    by (simp, intro then_heap_preserved link_input_preserved Cons.prems a Cons.IH)
qed

lemma process_node_inputs_preserved:
  assumes p: "preserved h0 h" and a: "length h0 \<le> a"
  shows "preserved h0 (snd (process_node_inputs h node (VRef a) workflow))"
  unfolding process_node_inputs_def
  by (intro then_heap_preserved bind_heap_preserved if_preserved pair_preserved
        dict_update_preserved link_inputs_preserved p a)

lemma transform_node_preserved:
  assumes p: "preserved h0 h" and a: "length h0 \<le> a"
  shows "preserved h0 (snd (transform_node h workflow (VRef a) node))"
proof -
  have len: "length h0 \<le> length h" "length h0 \<le> Suc (length h)"
    using preserved_length [OF p] by simp_all
  show ?thesis
    unfolding transform_node_def alloc_def prod.case
    by (intro bind_heap_preserved if_preserved pair_preserved then_heap_preserved
          set_item_preserved process_node_inputs_preserved preserved_appends p a
        | simp add: len)+
qed

lemma transform_nodes_preserved:
  assumes "preserved h0 h" and a: "length h0 \<le> a"
  shows "preserved h0 (snd (transform_nodes h workflow (VRef a) nodes))"
  using assms(1)
proof (induction nodes arbitrary: h)
  case Nil
  then show ?case by simp
next
  case (Cons node rest)
  show ?case
    by (simp, intro then_heap_preserved transform_node_preserved Cons.prems a Cons.IH)
qed

lemma transform_preserved:
  "preserved h (snd (transform_workflow_to_api_format h workflow))"
  unfolding transform_workflow_to_api_format_def alloc_def prod.case
  by (intro bind_heap_preserved if_preserved pair_preserved then_heap_preserved
        transform_nodes_preserved preserved_appends preserved_refl le_refl
      | simp)+

text \<open>
  C7. Whatever the heap, the graph and the prompt, and however the call ends:
  \<open>update_workflow\<close> leaves every object that existed before the call unchanged, and the
  graph it returns reaches only objects created by the call (it shares no object with the
  input graph); \<open>_transform_workflow_to_api_format\<close> leaves every object that existed
  before the call unchanged; so does compiling the copy that \<open>update_workflow\<close> returned.
\<close>

theorem injection_and_compilation_leave_graph_unchanged:
  "preserved h (snd (update_workflow h workflow prompt))
   \<and> (fst (update_workflow h workflow prompt) = Returns copy \<longrightarrow>
        (\<forall>a \<in> reachable (snd (update_workflow h workflow prompt)) copy.
           length h \<le> a \<and> a < length (snd (update_workflow h workflow prompt)))
        \<and> preserved h
             (snd (transform_workflow_to_api_format
                     (snd (update_workflow h workflow prompt)) copy)))
   \<and> preserved h (snd (transform_workflow_to_api_format h workflow))"
proof -
  obtain r h' where u: "update_workflow h workflow prompt = (r, h')"
    by (cases "update_workflow h workflow prompt")
  from update_workflow_frame [OF u]
  have frame: "preserved h h'"
    and new: "r = Returns v \<Longrightarrow> \<forall>a \<in> reachable h' v. length h \<le> a \<and> a < length h'" for v
    by blast+
  have "preserved h (snd (transform_workflow_to_api_format h' copy))"
    using preserved_trans [OF frame transform_preserved] .
  with frame new [of copy] transform_preserved [of h workflow] u show ?thesis
    by simp
qed

theorem injection_and_compilation_leave_graph_unchanged_witness:
  "fst (update_workflow sample_graph (VRef 3) ''new'') = Returns (VRef 7)
   \<and> take 4 (snd (update_workflow sample_graph (VRef 3) ''new'')) = sample_graph
   \<and> snd (update_workflow sample_graph (VRef 3) ''new'') ! 4
       = OList [VStr ''new'', VStr ''negative'']
   \<and> take 4 (snd (transform_workflow_to_api_format
                    (snd (update_workflow sample_graph (VRef 3) ''new'')) (VRef 7)))
       = sample_graph"
proof -
  have r: "fst (update_workflow sample_graph (VRef 3) ''new'') = Returns (VRef 7)"
    by code_simp
  have w: "snd (update_workflow sample_graph (VRef 3) ''new'') ! 4
       = OList [VStr ''new'', VStr ''negative'']"
    by code_simp
  have len: "length sample_graph = 4"
    by (simp add: sample_graph_def)
  from injection_and_compilation_leave_graph_unchanged
         [of sample_graph "VRef 3" "''new''" "VRef 7"] r
  have "preserved sample_graph (snd (update_workflow sample_graph (VRef 3) ''new''))"
    and "preserved sample_graph
           (snd (transform_workflow_to_api_format
                   (snd (update_workflow sample_graph (VRef 3) ''new'')) (VRef 7)))"
    by simp_all
  with r w len show ?thesis
    by (simp add: preserved_def)
qed

subsection \<open>Compiling a graph without a node list\<close>

lemma dict_get_subscript:
  assumes "dict_get h w k VNone = Returns p" and "p \<noteq> VNone"
  shows "subscript h w (KStr k) = Returns p"
proof (cases w)
  case (VRef a)
  show ?thesis
  proof (cases "object_at h a")
    case None
    with VRef assms show ?thesis by (simp add: dict_get_def)
  next
    case (Some obj)
    with VRef assms show ?thesis
      by (cases obj) (auto simp: dict_get_def subscript_def split: option.splits)
  qed
qed (use assms in \<open>simp_all add: dict_get_def\<close>)

lemma truthy_not_None: "truthy h p = Returns True \<Longrightarrow> p \<noteq> VNone"
  by (auto simp: truthy_def)

text \<open>
  C8, as stated, fails: a graph without a node list that has a non-empty \<open>prompt\<close> entry
  is not returned as it is. The compiler returns the \<open>prompt\<close> entry, another object
  with other contents.
\<close>

theorem transform_unwraps_prompt_counterexample:
  "fst (transform_workflow_to_api_format wrapped_graph (VRef 2)) = Returns (VRef 1)
   \<and> VRef 1 \<noteq> VRef 2
   \<and> wrapped_graph ! 1 \<noteq> wrapped_graph ! 2"
  by code_simp

text \<open>
  C8, amended. For every graph whose \<open>nodes\<close> entry is absent or falsy: when its
  \<open>prompt\<close> entry is absent or falsy, the compiler returns the input graph itself and
  changes nothing; when its \<open>prompt\<close> entry is truthy, the compiler returns that entry
  and changes nothing.
\<close>

theorem transform_without_node_list:
  "dict_get h workflow ''nodes'' VNone = Returns nodes \<Longrightarrow>
   truthy h nodes = Returns False \<Longrightarrow>
   dict_get h workflow ''prompt'' VNone = Returns wrapped \<Longrightarrow>
   truthy h wrapped = Returns has_prompt \<Longrightarrow>
   transform_workflow_to_api_format h workflow
     = (if has_prompt then (Returns wrapped, h) else (Returns workflow, h))"
proof -
  assume n: "dict_get h workflow ''nodes'' VNone = Returns nodes"
    "truthy h nodes = Returns False"
    and p: "dict_get h workflow ''prompt'' VNone = Returns wrapped"
    "truthy h wrapped = Returns has_prompt"
  show ?thesis
  proof (cases has_prompt)
    case True
    with p have "subscript h workflow (KStr ''prompt'') = Returns wrapped"
      by (intro dict_get_subscript truthy_not_None) simp_all
    with n p True show ?thesis
      by (simp add: transform_workflow_to_api_format_def bind_heap_def)
  next
    case False
    with n p show ?thesis
      by (simp add: transform_workflow_to_api_format_def bind_heap_def)
  qed
qed

theorem transform_without_node_list_witness:
  "transform_workflow_to_api_format wrapped_graph (VRef 1) = (Returns (VRef 1), wrapped_graph)
   \<and> transform_workflow_to_api_format wrapped_graph (VRef 2)
       = (Returns (VRef 1), wrapped_graph)"
proof -
  have a: "dict_get wrapped_graph (VRef 1) ''nodes'' VNone = Returns VNone"
    "truthy wrapped_graph VNone = Returns False"
    "dict_get wrapped_graph (VRef 1) ''prompt'' VNone = Returns VNone"
    by code_simp+
  have b: "dict_get wrapped_graph (VRef 2) ''nodes'' VNone = Returns VNone"
    "dict_get wrapped_graph (VRef 2) ''prompt'' VNone = Returns (VRef 1)"
    "truthy wrapped_graph (VRef 1) = Returns True"
    by code_simp+
  from transform_without_node_list [OF a(1,2) a(3) a(2)]
    transform_without_node_list [OF b(1) a(2) b(2) b(3)]
  show ?thesis by simp
qed

end
